theory Spec2Isabelle
  imports Main "HOL-Library.AList"
begin

chapter \<open>Glide: the page script of an in-browser Python editor (src/app.js)\<close>

text \<open>
  The script wires buttons of a page to a text editor widget and to an embedded Python
  interpreter. The model keeps the script's own logic as functions on an explicit page
  state; what the widget, the interpreter and the browser answer is handed to those
  functions as arguments.
\<close>

section \<open>Strings\<close>

text \<open>
  A script string is a list of code units, one \<^typ>\<open>char\<close> each. The 8-bit type holds the
  code units below 256, and on those the functions below are what the script's string
  methods compute.
\<close>

abbreviation LF :: char where "LF \<equiv> CHR 0x0A"
abbreviation CR :: char where "CR \<equiv> CHR 0x0D"
abbreviation TAB :: char where "TAB \<equiv> CHR 0x09"

text \<open>\<^verbatim>\<open>s.startsWith(t)\<close> and \<^verbatim>\<open>s.endsWith(t)\<close>.\<close>

definition startsWith :: "string \<Rightarrow> string \<Rightarrow> bool" where
  "startsWith s t = (take (length t) s = t)"

definition endsWith :: "string \<Rightarrow> string \<Rightarrow> bool" where
  "endsWith s t = (length t \<le> length s \<and> drop (length s - length t) s = t)"

text \<open>\<^verbatim>\<open>s.includes(t)\<close>: \<open>t\<close> starts at some position of \<open>s\<close>.\<close>

fun includes_str :: "string \<Rightarrow> string \<Rightarrow> bool" where
  "includes_str [] t = (t = [])"
| "includes_str (c # cs) t = (startsWith (c # cs) t \<or> includes_str cs t)"

text \<open>
  \<^verbatim>\<open>s.replace(/ab/g, r)\<close> for a pattern of two characters: one pass from the left;
  each match becomes \<open>r\<close>, and the scan goes on behind the match. The script has three
  such calls: \<^verbatim>\<open>replace(/\r\n/g, "\n")\<close> on the output, and
  \<^verbatim>\<open>replace(/\\n/g, "\n")\<close> and \<^verbatim>\<open>replace(/\\t/g, "\t")\<close> on a snippet, where
  the pattern is a backslash and a letter.
\<close>

fun replace2 :: "char \<Rightarrow> char \<Rightarrow> string \<Rightarrow> string \<Rightarrow> string" where
  "replace2 a b r (c # d # cs) =
     (if c = a \<and> d = b then r @ replace2 a b r cs else c # replace2 a b r (d # cs))"
| "replace2 a b r cs = cs"

definition replace_crlf :: "string \<Rightarrow> string" where
  "replace_crlf s = replace2 CR LF [LF] s"

definition decode_escapes :: "string \<Rightarrow> string" where
  "decode_escapes raw =
     replace2 (CHR 0x5C) (CHR ''t'') [TAB] (replace2 (CHR 0x5C) (CHR ''n'') [LF] raw)"

text \<open>\<^verbatim>\<open>s.split("\n")\<close>: the pieces between the line feeds, at least one.\<close>

fun split_LF :: "string \<Rightarrow> string list" where
  "split_LF [] = [[]]"
| "split_LF (c # cs) =
     (if c = LF then [] # split_LF cs
      else (case split_LF cs of [] \<Rightarrow> [[c]] | l # ls \<Rightarrow> (c # l) # ls))"

text \<open>
  \<^verbatim>\<open>s.trim()\<close> drops white space and line terminators from both ends. Below 256 these
  are tab, line feed, vertical tab, form feed, carriage return, space and the
  no-break space.
\<close>

definition is_space :: "char \<Rightarrow> bool" where
  "is_space c = (c \<in> {TAB, LF, CHR 0x0B, CHR 0x0C, CR, CHR 0x20, CHR 0xA0})"

definition trim :: "string \<Rightarrow> string" where
  "trim s = rev (dropWhile is_space (rev (dropWhile is_space s)))"

text \<open>
  \<^verbatim>\<open>s.toLowerCase()\<close>: below 256 the capital letters are A to Z and the range
  0xC0 to 0xDE without the multiplication sign 0xD7; each lies 32 below its small letter.
\<close>

definition lower_char :: "char \<Rightarrow> char" where
  "lower_char c =
     (let n = (of_char c :: nat)
      in if (65 \<le> n \<and> n \<le> 90) \<or> (192 \<le> n \<and> n \<le> 222 \<and> n \<noteq> 215)
         then char_of (n + 32) else c)"

definition toLowerCase :: "string \<Rightarrow> string" where
  "toLowerCase s = map lower_char s"

text \<open>Counting, for the properties: how often \<open>t\<close> starts in \<open>s\<close>, and how many line
  feeds end \<open>s\<close>.\<close>

fun count_occ :: "string \<Rightarrow> string \<Rightarrow> nat" where
  "count_occ t [] = (if t = [] then 1 else 0)"
| "count_occ t (c # cs) = (if startsWith (c # cs) t then 1 else 0) + count_occ t cs"

definition trailing_newlines :: "string \<Rightarrow> nat" where
  "trailing_newlines s = length (takeWhile (\<lambda>c. c = LF) (rev s))"

section \<open>The output sink\<close>

text \<open>
  The element \<^verbatim>\<open>outputEl\<close>: its text, and whether its view stands at the newest content,
  which is what \<^verbatim>\<open>outputEl.scrollTop = outputEl.scrollHeight\<close> brings about.
\<close>

record output_el =
  textContent :: string
  scrolled_to_end :: bool

text \<open>
  \<^verbatim>\<open>appendOutput(text)\<close>; \<open>None\<close> is \<^verbatim>\<open>null\<close> or \<^verbatim>\<open>undefined\<close>, which
  \<^verbatim>\<open>text == null\<close> catches.
\<close>

fun appendOutput :: "string option \<Rightarrow> output_el \<Rightarrow> output_el" where
  "appendOutput None el = el"
| "appendOutput (Some text) el =
     (let s = replace_crlf text;
          needsNL = (s \<noteq> [] \<and> \<not> endsWith s [LF])
      in \<lparr>textContent = textContent el @ (if needsNL then s @ [LF] else s),
          scrolled_to_end = True\<rparr>)"

text \<open>\<^verbatim>\<open>setOutput(text)\<close>: \<^verbatim>\<open>text || ""\<close> reads \<^verbatim>\<open>null\<close> as the empty string.\<close>

fun setOutput :: "string option \<Rightarrow> output_el \<Rightarrow> output_el" where
  "setOutput None el = el\<lparr>textContent := []\<rparr>"
| "setOutput (Some text) el = el\<lparr>textContent := text\<rparr>"

section \<open>The download action\<close>

definition attribution :: string where
  "attribution = ''# Written using GLIDE''"

definition footer :: string where
  "footer = ''\<newline>\<newline># Written using GLIDE\<newline>''"

definition suggested :: string where
  "suggested = ''glide_code.py''"

text \<open>The content of the file, from \<^verbatim>\<open>editor.getValue()\<close>: first the line feed at the
  end, then the footer.\<close>

definition ensure_newline :: "string \<Rightarrow> string" where
  "ensure_newline code0 = (if \<not> endsWith code0 [LF] \<and> code0 \<noteq> [] then code0 @ [LF] else code0)"

definition download_code :: "string \<Rightarrow> string" where
  "download_code code0 =
     (let code1 = ensure_newline code0
      in if \<not> includes_str code1 attribution then code1 @ footer else code1)"

text \<open>
  The name of the file, from the answer of \<^verbatim>\<open>prompt\<close>: \<open>None\<close> when the user cancels.
  \<^verbatim>\<open>answer || suggested\<close> replaces \<^verbatim>\<open>null\<close> and the empty string, the two
  answers that count as false.
\<close>

definition or_suggested :: "string option \<Rightarrow> string" where
  "or_suggested answer =
     (case answer of None \<Rightarrow> suggested | Some a \<Rightarrow> if a = [] then suggested else a)"

definition download_filename :: "string option \<Rightarrow> string" where
  "download_filename answer =
     (let name = trim (or_suggested answer)
      in if endsWith (toLowerCase name) ''.py'' then name else name @ ''.py'')"

text \<open>For the properties: the part of the content before the footer, and a name that
  ends in a dot, a P and a Y of either case.\<close>

definition code_portion :: "string \<Rightarrow> string" where
  "code_portion content = take (length content - length footer) content"

definition ends_in_py :: "string \<Rightarrow> bool" where
  "ends_in_py name =
     (case rev name of
        c3 # c2 # c1 # _ \<Rightarrow>
          c1 = CHR ''.'' \<and> (c2 = CHR ''p'' \<or> c2 = CHR ''P'') \<and> (c3 = CHR ''y'' \<or> c3 = CHR ''Y'')
      | _ \<Rightarrow> False)"

section \<open>The editor widget\<close>

text \<open>
  What the script sees of the editor: the lines of the document, the cursor as a line
  number and a column, and whether the editor has the focus. The widget keeps at least
  one line and keeps the cursor inside the document.
\<close>

record editor_st =
  doc_lines :: "string list"
  cur_line :: nat
  cur_ch :: nat
  focused :: bool

definition wf_editor :: "editor_st \<Rightarrow> bool" where
  "wf_editor ed =
     (cur_line ed < length (doc_lines ed) \<and> cur_ch ed \<le> length (doc_lines ed ! cur_line ed))"

fun join_lines :: "string list \<Rightarrow> string" where
  "join_lines [] = []"
| "join_lines [l] = l"
| "join_lines (l # m # ls) = l @ LF # join_lines (m # ls)"

text \<open>\<^verbatim>\<open>editor.getValue()\<close> joins the lines with line feeds; \<^verbatim>\<open>doc.getLine(n)\<close> is
  \<^verbatim>\<open>undefined\<close>, here \<open>None\<close>, where the document has no line \<open>n\<close>.\<close>

definition getValue :: "editor_st \<Rightarrow> string" where
  "getValue ed = join_lines (doc_lines ed)"

definition getLine :: "editor_st \<Rightarrow> nat \<Rightarrow> string option" where
  "getLine ed n = (if n < length (doc_lines ed) then Some (doc_lines ed ! n) else None)"

text \<open>
  The widget cuts inserted text into lines at every line feed, at every carriage return,
  and once at a carriage return with a line feed behind it.
\<close>

fun cons_first :: "char \<Rightarrow> string list \<Rightarrow> string list" where
  "cons_first c [] = [[c]]"
| "cons_first c (l # ls) = (c # l) # ls"

fun splitLines :: "string \<Rightarrow> string list" where
  "splitLines [] = [[]]"
| "splitLines [c] = (if c = CR \<or> c = LF then [[], []] else [[c]])"
| "splitLines (c # d # cs) =
     (if c = CR \<and> d = LF then [] # splitLines cs
      else if c = CR \<or> c = LF then [] # splitLines (d # cs)
      else cons_first c (splitLines (d # cs)))"

text \<open>A carriage return that no line feed follows: the one line break of the editor
  that \<^verbatim>\<open>split("\n")\<close> does not see.\<close>

fun lone_CR :: "string \<Rightarrow> bool" where
  "lone_CR [] = False"
| "lone_CR [c] = (c = CR)"
| "lone_CR (c # d # cs) = (if c = CR then d \<noteq> LF \<or> lone_CR cs else lone_CR (d # cs))"

text \<open>
  \<^verbatim>\<open>doc.replaceRange(text, pos)\<close> with one position inserts \<open>text\<close> there. The first piece
  joins what stands before \<open>pos\<close> on its line, the last piece what stands behind it. A
  cursor that stood at \<open>pos\<close> or behind it moves with the text: from \<open>pos\<close> to the end
  of the inserted text.
\<close>

definition line_at :: "string list \<Rightarrow> nat \<Rightarrow> string" where
  "line_at ls n = (if n < length ls then ls ! n else [])"

definition splice_lines :: "string \<Rightarrow> string list \<Rightarrow> string \<Rightarrow> string list" where
  "splice_lines left parts right =
     (case parts of
        [] \<Rightarrow> [left @ right]
      | [p] \<Rightarrow> [left @ p @ right]
      | p # q # ps \<Rightarrow> (left @ p) # butlast (q # ps) @ [last (q # ps) @ right])"

definition pos_less :: "nat \<times> nat \<Rightarrow> nat \<times> nat \<Rightarrow> bool" where
  "pos_less a b = (fst a < fst b \<or> (fst a = fst b \<and> snd a < snd b))"

definition replaceRange :: "string \<Rightarrow> nat \<times> nat \<Rightarrow> editor_st \<Rightarrow> editor_st" where
  "replaceRange text pos ed =
     (let ln = fst pos; ch = snd pos;
          ls = doc_lines ed;
          parts = splitLines text;
          added = length parts - 1;
          end_ch = length (last parts) + (if length parts = 1 then ch else 0);
          cur = (cur_line ed, cur_ch ed);
          cur' = (if pos_less cur pos then cur
                  else if cur = pos then (ln + added, end_ch)
                  else (cur_line ed + added,
                        if cur_line ed = ln then cur_ch ed + end_ch - ch else cur_ch ed))
      in ed\<lparr>doc_lines := take ln ls @ splice_lines (take ch (line_at ls ln)) parts (drop ch (line_at ls ln))
                             @ drop (Suc ln) ls,
            cur_line := fst cur', cur_ch := snd cur'\<rparr>)"

text \<open>
  \<^verbatim>\<open>editor.indentLine(i, "smart")\<close> reformats line \<open>i\<close> by the rule of the language mode,
  which is the widget's own: \<open>smart\<close> stands for it. Where the document has no line \<open>i\<close>
  the widget does nothing.
\<close>

definition indentLine :: "(nat \<Rightarrow> editor_st \<Rightarrow> editor_st) \<Rightarrow> int \<Rightarrow> editor_st \<Rightarrow> editor_st" where
  "indentLine smart i ed =
     (if 0 \<le> i \<and> nat i < length (doc_lines ed) then smart (nat i) ed else ed)"

text \<open>
  \<^verbatim>\<open>insertSnippet(snippet)\<close>. An \<^verbatim>\<open>undefined\<close> line would raise at \<^verbatim>\<open>lineText.slice\<close>:
  the result \<open>None\<close>. The loop runs \<open>i\<close> from \<open>startLine\<close> to the line of \<open>endPos\<close>,
  both fixed before it starts.
\<close>

definition insertSnippet ::
  "(nat \<Rightarrow> editor_st \<Rightarrow> editor_st) \<Rightarrow> string \<Rightarrow> editor_st \<Rightarrow> editor_st option" where
  "insertSnippet smart snippet ed =
     (case getLine ed (cur_line ed) of
        None \<Rightarrow> None
      | Some lineText \<Rightarrow>
          (let needsLeadingNL = (if trim (take (cur_ch ed) lineText) \<noteq> [] then [LF] else []);
               ed1 = replaceRange (needsLeadingNL @ snippet) (cur_line ed, cur_ch ed) ed;
               endPos_line = int (cur_line ed1);
               ed2 = ed1\<lparr>focused := True\<rparr>;
               insertedLines = int (length (split_LF snippet)) - 1;
               startLine = endPos_line - insertedLines
           in Some (fold (indentLine smart) [startLine..endPos_line] ed2)))"

text \<open>For the properties: the text before the cursor and the text behind it; the line
  feed a snippet gets in front when a character other than white space stands before
  the cursor on its line; and the document with the snippet put in.\<close>

definition text_before_cursor :: "editor_st \<Rightarrow> string" where
  "text_before_cursor ed =
     join_lines (take (cur_line ed) (doc_lines ed)
                 @ [take (cur_ch ed) (line_at (doc_lines ed) (cur_line ed))])"

definition text_after_cursor :: "editor_st \<Rightarrow> string" where
  "text_after_cursor ed =
     join_lines (drop (cur_ch ed) (line_at (doc_lines ed) (cur_line ed))
                 # drop (Suc (cur_line ed)) (doc_lines ed))"

definition leading_newline :: "editor_st \<Rightarrow> string" where
  "leading_newline ed =
     (if list_ex (\<lambda>c. \<not> is_space c) (take (cur_ch ed) (line_at (doc_lines ed) (cur_line ed)))
      then [LF] else [])"

definition with_snippet :: "string \<Rightarrow> editor_st \<Rightarrow> editor_st" where
  "with_snippet snippet ed =
     replaceRange (leading_newline ed @ snippet) (cur_line ed, cur_ch ed) ed"

section \<open>Toolbox persistence\<close>

text \<open>
  The state object maps section keys to JSON values: to booleans, and, when a stored
  object brought them, to other values. Local storage keeps text under the key
  \<^verbatim>\<open>glide.toolbox.state.v1\<close>; of that text the script uses what \<^verbatim>\<open>JSON.parse\<close> makes of
  it: an object, or an exception. \<^verbatim>\<open>JSON.stringify\<close> of the state object is text that
  parses to the same object. Text that parses to something other than an object is
  never written by the script and is left out.
\<close>

datatype 'a jval = JBool bool | JOther 'a

type_synonym 'a jobj = "string \<Rightarrow> 'a jval option"

datatype 'a stored = Malformed | Object "'a jobj"

record section_el =
  data_key :: "string option"
  is_open :: bool

record 'a toolbox =
  sections :: "section_el list"
  tb_state :: "'a jobj"
  storage_item :: "'a stored option"

text \<open>
  \<^verbatim>\<open>state[k]\<close> names a property by a string; \<^verbatim>\<open>null\<close>, the key of a section without the
  attribute, names the property \<^verbatim>\<open>null\<close>. Assigning to \<^verbatim>\<open>__proto__\<close> creates no property
  when the object has none of that name: the assignment goes to the accessor every
  object inherits, which ignores a boolean.
\<close>

definition property_key :: "string option \<Rightarrow> string" where
  "property_key k = (case k of None \<Rightarrow> ''null'' | Some name \<Rightarrow> name)"

definition set_prop :: "'a jobj \<Rightarrow> string \<Rightarrow> 'a jval \<Rightarrow> 'a jobj" where
  "set_prop obj k v = (if k = ''__proto__'' \<and> obj k = None then obj else obj(k \<mapsto> v))"

text \<open>
  \<^verbatim>\<open>JSON.parse(localStorage.getItem(KEY) || "{}")\<close> inside \<^verbatim>\<open>try\<close>: no item, the empty
  item and an item that does not parse all leave the empty object.
\<close>

definition initial_state :: "'a stored option \<Rightarrow> 'a jobj" where
  "initial_state item = (case item of Some (Object obj) \<Rightarrow> obj | _ \<Rightarrow> Map.empty)"

text \<open>\<^verbatim>\<open>if (k && typeof state[k] === "boolean") sec.open = state[k]\<close>.\<close>

definition restore :: "'a jobj \<Rightarrow> section_el \<Rightarrow> section_el" where
  "restore st sec =
     (case data_key sec of
        None \<Rightarrow> sec
      | Some k \<Rightarrow>
          if k \<noteq> [] then (case st k of Some (JBool b) \<Rightarrow> sec\<lparr>is_open := b\<rparr> | _ \<Rightarrow> sec)
          else sec)"

text \<open>\<^verbatim>\<open>persistToolbox\<close>, run once when the page loads, on the sections as the markup
  gives them.\<close>

definition persistToolbox :: "'a stored option \<Rightarrow> section_el list \<Rightarrow> 'a toolbox" where
  "persistToolbox item secs =
     (let st = initial_state item
      in \<lparr>sections = map (restore st) secs, tb_state = st, storage_item = item\<rparr>)"

text \<open>
  The listener of section \<open>i\<close> for \<^verbatim>\<open>toggle\<close>, and a user's toggle: the browser flips
  the section and then runs the listener.
\<close>

definition on_toggle :: "nat \<Rightarrow> 'a toolbox \<Rightarrow> 'a toolbox" where
  "on_toggle i tb =
     (if i < length (sections tb)
      then (let sec = sections tb ! i;
                st = set_prop (tb_state tb) (property_key (data_key sec)) (JBool (is_open sec))
            in tb\<lparr>tb_state := st, storage_item := Some (Object st)\<rparr>)
      else tb)"

definition flip :: "section_el \<Rightarrow> section_el" where
  "flip sec = sec\<lparr>is_open := \<not> is_open sec\<rparr>"

definition user_toggle :: "nat \<Rightarrow> 'a toolbox \<Rightarrow> 'a toolbox" where
  "user_toggle i tb =
     (if i < length (sections tb)
      then on_toggle i (tb\<lparr>sections := (sections tb)[i := flip (sections tb ! i)]\<rparr>)
      else tb)"

text \<open>For the properties: the stored item is the text of the state object.\<close>

definition stored_is_state :: "'a toolbox \<Rightarrow> bool" where
  "stored_is_state tb = (storage_item tb = Some (Object (tb_state tb)))"

section \<open>The interpreter, as the page meets it\<close>

text \<open>
  A value thrown at the script: its \<^verbatim>\<open>message\<close> property where it has one that is a
  string; what \<^verbatim>\<open>String(e)\<close> makes of it; and what the concatenation
  \<^verbatim>\<open>"Error loading Pyodide:\n" + e\<close> puts behind the heading. The two conversions
  differ: the operator asks \<^verbatim>\<open>valueOf\<close> before \<^verbatim>\<open>toString\<close>, and it throws a
  \<^verbatim>\<open>TypeError\<close> for a Symbol, which \<^verbatim>\<open>String\<close> converts; \<open>as_operand\<close> is
  \<open>None\<close> where the concatenation throws. The Run handler prints
  \<^verbatim>\<open>e && e.message ? e.message : String(e)\<close>, the loader
  \<^verbatim>\<open>e && e.message ? e.message : e\<close> behind its heading; an empty message counts as
  none in both.
\<close>

record js_error =
  message :: "string option"
  as_string :: string
  as_operand :: "string option"

definition error_text :: "js_error \<Rightarrow> string" where
  "error_text e =
     (case message e of None \<Rightarrow> as_string e | Some m \<Rightarrow> if m \<noteq> [] then m else as_string e)"

definition error_operand :: "js_error \<Rightarrow> string option" where
  "error_operand e =
     (case message e of None \<Rightarrow> as_operand e | Some m \<Rightarrow> if m \<noteq> [] then Some m else as_operand e)"

text \<open>
  The global namespace of the interpreter: names and values in the order of the
  dictionary. What lies outside the script is a parameter:

    \<^item> what \<^verbatim>\<open>import builtins\<close> binds to the name \<^verbatim>\<open>builtins\<close>, or raises;
    \<^item> the built-in \<^verbatim>\<open>repr\<close>, which may raise, and the names the built-in \<^verbatim>\<open>dir\<close>
      lists for that module;
    \<^item> what a value does that the editor code has bound to one of the names
      \<^verbatim>\<open>globals\<close>, \<^verbatim>\<open>repr\<close> and \<^verbatim>\<open>dir\<close> when the query calls it: the items of
      \<^verbatim>\<open>f().items()\<close>, the text shown for \<^verbatim>\<open>f(v)\<close>, the truth of
      \<^verbatim>\<open>k in f(builtins)\<close>, each of which may raise;
    \<^item> the own enumerable string-keyed properties, with their values as text, of the
      object that \<^verbatim>\<open>pyodide.runPython\<close> returns for a dict, as \<^verbatim>\<open>Object.keys\<close> and
      \<^verbatim>\<open>Object.entries\<close> enumerate them, or the value the enumeration throws;
    \<^item> the editor's indentation rule.
\<close>

type_synonym 'v globals = "(string \<times> 'v) list"

record 'v externals =
  import_builtins :: "js_error + 'v"
  py_repr :: "'v \<Rightarrow> js_error + string"
  dir_builtins :: "string list"
  called_as_globals :: "'v \<Rightarrow> js_error + 'v globals"
  called_as_repr :: "'v \<Rightarrow> 'v \<Rightarrow> js_error + string"
  called_as_dir :: "'v \<Rightarrow> string \<Rightarrow> js_error + bool"
  own_entries :: "(string \<times> string) list \<Rightarrow> js_error + (string \<times> string) list"
  smart_indent :: "nat \<Rightarrow> editor_st \<Rightarrow> editor_st"

text \<open>
  The Python source that \<^verbatim>\<open>updateVariables\<close> hands to \<^verbatim>\<open>pyodide.runPython\<close>.
  \<^verbatim>\<open>import builtins\<close> binds the name \<^verbatim>\<open>builtins\<close> among the globals. The
  comprehension then looks up \<^verbatim>\<open>globals\<close>, \<^verbatim>\<open>dir\<close> and \<^verbatim>\<open>repr\<close> as any name:
  among the globals first, where the editor code may have bound them, among the built-in
  names otherwise. It goes through the items in order, passes over a name that starts
  with two underscores without asking more, asks whether the name is listed for the
  module, and for a name that is not, stores what \<^verbatim>\<open>repr\<close> gives under that name in
  the dict it builds. The first call that raises ends the query with that error.
\<close>

definition listed :: "'v externals \<Rightarrow> 'v globals \<Rightarrow> string \<Rightarrow> js_error + bool" where
  "listed X g k =
     (case map_of g ''dir'' of
        None \<Rightarrow> Inr (k \<in> set (dir_builtins X))
      | Some f \<Rightarrow> called_as_dir X f k)"

definition repr_of :: "'v externals \<Rightarrow> 'v globals \<Rightarrow> 'v \<Rightarrow> js_error + string" where
  "repr_of X g v =
     (case map_of g ''repr'' of
        None \<Rightarrow> py_repr X v
      | Some f \<Rightarrow> called_as_repr X f v)"

fun snapshot ::
  "'v externals \<Rightarrow> 'v globals \<Rightarrow> 'v globals \<Rightarrow> (string \<times> string) list \<Rightarrow>
   js_error + (string \<times> string) list" where
  "snapshot X g [] d = Inr d"
| "snapshot X g ((k, v) # kvs) d =
     (if startsWith k ''__'' then snapshot X g kvs d
      else
        (case listed X g k of
           Inl e \<Rightarrow> Inl e
         | Inr is_listed \<Rightarrow>
             if is_listed then snapshot X g kvs d
             else
               (case repr_of X g v of
                  Inl e \<Rightarrow> Inl e
                | Inr t \<Rightarrow> snapshot X g kvs (AList.update k t d))))"

text \<open>The globals the query leaves, and the dict it evaluates to or the error it
  raises.\<close>

definition variables_query ::
  "'v externals \<Rightarrow> 'v globals \<Rightarrow> 'v globals \<times> (js_error + (string \<times> string) list)" where
  "variables_query X g =
     (case import_builtins X of
        Inl e \<Rightarrow> (g, Inl e)
      | Inr m \<Rightarrow>
          (let g1 = AList.update ''builtins'' m g
           in case (case map_of g1 ''globals'' of
                      None \<Rightarrow> Inr g1
                    | Some f \<Rightarrow> called_as_globals X f) of
                Inl e \<Rightarrow> (g1, Inl e)
              | Inr items \<Rightarrow> (g1, snapshot X g1 items [])))"

text \<open>The test of \<^verbatim>\<open>Object.keys(vars).length\<close> and the loop over
  \<^verbatim>\<open>Object.entries(vars)\<close>, from the emptied element.\<close>

definition render_variables :: "(string \<times> string) list \<Rightarrow> string" where
  "render_variables vars =
     (if length vars = 0 then ''(no variables)''
      else foldl (\<lambda>shown (k, v). shown @ k @ '' = '' @ v @ [LF]) [] vars)"

section \<open>The page\<close>

text \<open>
  The state the handlers share. \<open>py_calls\<close> is not a variable of the script: it lists
  the sources handed to the interpreter so far, one entry for each of the four places
  where the script calls it, so that a property can say that nothing was executed. \<open>downloads\<close> lists the files offered, each a name and a
  content. The ellipsis of two status texts is one character beyond the 8-bit range;
  it is kept as the three bytes the source file has for it, and no operation looks
  into a status text.
\<close>

datatype console_entry = ConsoleLog string | ConsoleError string js_error

datatype py_source = Input_patch | Import_sys_traceback | Editor_code string | Variables_source

definition ellipsis :: string where
  "ellipsis = [CHR 0xE2, CHR 0x80, CHR 0xA6]"

record ('v, 'a) page =
  pyodide_loaded :: bool
  pyReady :: bool
  py_globals :: "'v globals"
  py_calls :: "py_source list"
  outputEl :: output_el
  runtimeStatus :: string
  editorStatus :: string
  runBtn_disabled :: bool
  variablesEl :: string
  editor :: editor_st
  toolbox :: "'a toolbox"
  console :: "console_entry list"
  downloads :: "(string \<times> string) list"

text \<open>
  \<^verbatim>\<open>updateVariables()\<close>. The script does not convert the value that
  \<^verbatim>\<open>runPython\<close> returns (there is no \<^verbatim>\<open>toJs()\<close>): it empties the element and then
  reads \<^verbatim>\<open>Object.keys(vars)\<close> and \<^verbatim>\<open>Object.entries(vars)\<close> of that object itself.
  \<^verbatim>\<open>catch\<close> logs whatever was thrown, in the query or in the enumeration, and nothing
  else.
\<close>

definition updateVariables :: "'v externals \<Rightarrow> ('v, 'a) page \<Rightarrow> ('v, 'a) page" where
  "updateVariables X s =
     (if \<not> pyReady s then s
      else (case variables_query X (py_globals s) of
              (g1, Inl e) \<Rightarrow>
                s\<lparr>py_globals := g1, py_calls := py_calls s @ [Variables_source],
                  console := console s @ [ConsoleError ''Error updating variables:'' e]\<rparr>
            | (g1, Inr vars) \<Rightarrow>
                (let s1 = s\<lparr>py_globals := g1, py_calls := py_calls s @ [Variables_source],
                             variablesEl := []\<rparr>
                 in case own_entries X vars of
                      Inl e \<Rightarrow>
                        s1\<lparr>console := console s1 @ [ConsoleError ''Error updating variables:'' e]\<rparr>
                    | Inr entries \<Rightarrow> s1\<lparr>variablesEl := render_variables entries\<rparr>)))"

text \<open>
  The clicks other than Run, with what the browser hands to their listeners: the answer
  of the file name prompt, the \<^verbatim>\<open>data-snippet\<close> attribute of the snippet button, the
  index of the toggled section. A listener that raises leaves the state as it was.
\<close>

datatype ui_event =
    ClearClick
  | DownloadClick "string option"
  | SnipClick "string option"
  | ToggleSection nat
  | StepClick
  | RunToEndClick
  | StopClick

fun handle_ui :: "'v externals \<Rightarrow> ui_event \<Rightarrow> ('v, 'a) page \<Rightarrow> ('v, 'a) page" where
  "handle_ui X ClearClick s = s\<lparr>outputEl := setOutput (Some []) (outputEl s)\<rparr>"
| "handle_ui X (DownloadClick answer) s =
     s\<lparr>downloads := downloads s @ [(download_filename answer, download_code (getValue (editor s)))]\<rparr>"
| "handle_ui X (SnipClick attr) s =
     (let raw = (case attr of None \<Rightarrow> [] | Some a \<Rightarrow> a)
      in case insertSnippet (smart_indent X) (decode_escapes raw) (editor s) of
           None \<Rightarrow> s
         | Some ed \<Rightarrow> s\<lparr>editor := ed\<rparr>)"
| "handle_ui X (ToggleSection i) s = s\<lparr>toolbox := user_toggle i (toolbox s)\<rparr>"
| "handle_ui X StepClick s = s\<lparr>console := console s @ [ConsoleLog ''Step clicked'']\<rparr>"
| "handle_ui X RunToEndClick s = s\<lparr>console := console s @ [ConsoleLog ''Run to End clicked'']\<rparr>"
| "handle_ui X StopClick s = s\<lparr>console := console s @ [ConsoleLog ''Stop clicked'']\<rparr>"

section \<open>The Run handler\<close>

text \<open>
  While an awaited call of the interpreter is pending, the page goes on: the interpreter
  hands lines to the \<^verbatim>\<open>stdout\<close> and \<^verbatim>\<open>stderr\<close> callbacks, both
  \<^verbatim>\<open>(t) => appendOutput(t + "\n")\<close>, and listeners of other controls run. A call is
  given by what happens while it is pending, the globals it leaves, and the value it
  rejects with, if it does.
\<close>

datatype happening = Printed string | Clicked ui_event

record 'v py_call =
  happenings :: "happening list"
  globals_after :: "'v globals"
  rejected :: "js_error option"

fun happen :: "'v externals \<Rightarrow> happening \<Rightarrow> ('v, 'a) page \<Rightarrow> ('v, 'a) page" where
  "happen X (Printed t) s = s\<lparr>outputEl := appendOutput (Some (t @ [LF])) (outputEl s)\<rparr>"
| "happen X (Clicked u) s = handle_ui X u s"

fun states_through :: "'v externals \<Rightarrow> happening list \<Rightarrow> ('v, 'a) page \<Rightarrow> ('v, 'a) page list" where
  "states_through X [] s = []"
| "states_through X (h # hs) s = happen X h s # states_through X hs (happen X h s)"

text \<open>The states of the page from the moment the source is handed over until the call
  settles, and the state in which the handler resumes.\<close>

definition pending ::
  "'v externals \<Rightarrow> py_source \<Rightarrow> 'v py_call \<Rightarrow> ('v, 'a) page \<Rightarrow> ('v, 'a) page list" where
  "pending X src c s =
     (let s0 = s\<lparr>py_calls := py_calls s @ [src]\<rparr> in s0 # states_through X (happenings c) s0)"

definition settled ::
  "'v externals \<Rightarrow> py_source \<Rightarrow> 'v py_call \<Rightarrow> ('v, 'a) page \<Rightarrow> ('v, 'a) page" where
  "settled X src c s = (last (pending X src c s))\<lparr>py_globals := globals_after c\<rparr>"

text \<open>The \<^verbatim>\<open>catch\<close> and the \<^verbatim>\<open>finally\<close> block of the handler.\<close>

definition run_catch :: "js_error \<Rightarrow> ('v, 'a) page \<Rightarrow> ('v, 'a) page" where
  "run_catch e s =
     s\<lparr>outputEl := appendOutput (Some (error_text e @ [LF])) (outputEl s),
       editorStatus := ''Error''\<rparr>"

definition run_finally :: "('v, 'a) page \<Rightarrow> ('v, 'a) page" where
  "run_finally s = s\<lparr>runBtn_disabled := False\<rparr>"

text \<open>
  The listener of \<^verbatim>\<open>runBtn\<close> for \<^verbatim>\<open>click\<close>, as the states of the page from its first
  suspension to its end; the last state is the one it leaves. \<^verbatim>\<open>code\<close> is read
  before the first \<^verbatim>\<open>await\<close>.
\<close>

definition runBtn_click_states ::
  "'v externals \<Rightarrow> 'v py_call \<Rightarrow> 'v py_call \<Rightarrow> ('v, 'a) page \<Rightarrow> ('v, 'a) page list" where
  "runBtn_click_states X c1 c2 s =
     (if \<not> pyReady s
      then [s\<lparr>outputEl := appendOutput (Some ''Runtime not ready yet.\<newline>'') (outputEl s)\<rparr>]
      else
        (let s1 = s\<lparr>runBtn_disabled := True, editorStatus := ''Running'' @ ellipsis\<rparr>;
             code = getValue (editor s1);
             p1 = pending X Import_sys_traceback c1 s1;
             s2 = settled X Import_sys_traceback c1 s1
         in case rejected c1 of
              Some e \<Rightarrow> p1 @ [run_finally (run_catch e s2)]
            | None \<Rightarrow>
                (let p2 = pending X (Editor_code code) c2 s2;
                     s3 = settled X (Editor_code code) c2 s2
                 in case rejected c2 of
                      Some e \<Rightarrow> p1 @ p2 @ [run_finally (run_catch e s3)]
                    | None \<Rightarrow>
                        p1 @ p2 @ [run_finally (updateVariables X (s3\<lparr>editorStatus := ''Done''\<rparr>))])))"

definition runBtn_click ::
  "'v externals \<Rightarrow> 'v py_call \<Rightarrow> 'v py_call \<Rightarrow> ('v, 'a) page \<Rightarrow> ('v, 'a) page" where
  "runBtn_click X c1 c2 s = last (runBtn_click_states X c1 c2 s)"

text \<open>For the properties: the state in which the handler resumes when both calls have
  resolved, before it sets the status and refreshes the variables.\<close>

definition resumed ::
  "'v externals \<Rightarrow> 'v py_call \<Rightarrow> 'v py_call \<Rightarrow> ('v, 'a) page \<Rightarrow> ('v, 'a) page" where
  "resumed X c1 c2 s =
     settled X (Editor_code (getValue (editor s))) c2
       (settled X Import_sys_traceback c1
          (s\<lparr>runBtn_disabled := True, editorStatus := ''Running'' @ ellipsis\<rparr>))"

text \<open>An event of the page: a click on Run, with the two calls it will await, or one of
  the other clicks. A disabled button receives no click.\<close>

datatype 'v event = RunClick "'v py_call" "'v py_call" | Ui ui_event

fun handle_event :: "'v externals \<Rightarrow> 'v event \<Rightarrow> ('v, 'a) page \<Rightarrow> ('v, 'a) page" where
  "handle_event X (RunClick c1 c2) s = (if runBtn_disabled s then s else runBtn_click X c1 c2 s)"
| "handle_event X (Ui u) s = handle_ui X u s"

section \<open>Loading the runtime\<close>

text \<open>
  The loader awaits \<^verbatim>\<open>loadPyodide\<close> and then the call that replaces \<^verbatim>\<open>input\<close>.
  While either is pending the interpreter may print and any event may arrive.
\<close>

datatype 'v arriving = Prints string | Arrives "'v event"

record 'v loading =
  load_meanwhile :: "'v arriving list"
  load_result :: "js_error + 'v globals"
  patch_meanwhile :: "'v arriving list"
  patch_globals :: "'v globals"
  patch_rejected :: "js_error option"

fun arrive :: "'v externals \<Rightarrow> 'v arriving \<Rightarrow> ('v, 'a) page \<Rightarrow> ('v, 'a) page" where
  "arrive X (Prints t) s = s\<lparr>outputEl := appendOutput (Some (t @ [LF])) (outputEl s)\<rparr>"
| "arrive X (Arrives ev) s = handle_event X ev s"

text \<open>
  The \<^verbatim>\<open>catch\<close> block of the loader: it sets the status text, then builds the
  message. Where the concatenation throws, the block ends there and nothing is appended;
  the promise of the loader is rejected, which no code of the script observes.
\<close>

definition load_catch :: "js_error \<Rightarrow> ('v, 'a) page \<Rightarrow> ('v, 'a) page" where
  "load_catch e s =
     (let s1 = s\<lparr>runtimeStatus := ''Failed to load Python''\<rparr>
      in case error_operand e of
           None \<Rightarrow> s1
         | Some t \<Rightarrow>
             s1\<lparr>outputEl := appendOutput (Some (''Error loading Pyodide:\<newline>'' @ t)) (outputEl s1)\<rparr>)"

text \<open>The states of the page while the loader waits for a promise: the state in which
  it suspends, then the state after each arrival.\<close>

fun arrive_states ::
  "'v externals \<Rightarrow> 'v arriving list \<Rightarrow> ('v, 'a) page \<Rightarrow> ('v, 'a) page list" where
  "arrive_states X [] s = []"
| "arrive_states X (a # as) s = arrive X a s # arrive_states X as (arrive X a s)"

definition awaiting ::
  "'v externals \<Rightarrow> 'v arriving list \<Rightarrow> ('v, 'a) page \<Rightarrow> ('v, 'a) page list" where
  "awaiting X as s = s # arrive_states X as s"

text \<open>
  The loader, as the states of the page from its first suspension to its end; the last
  state is the one it leaves. It suspends at \<^verbatim>\<open>await loadPyodide(...)\<close> with the status
  text set; when that resolves it stores the interpreter and hands over the source that
  replaces \<^verbatim>\<open>input\<close>, and suspends again; when that resolves too it sets the flag
  and the status text. A rejection of either promise is thrown into \<^verbatim>\<open>catch\<close>.
\<close>

definition load_states ::
  "'v externals \<Rightarrow> 'v loading \<Rightarrow> ('v, 'a) page \<Rightarrow> ('v, 'a) page list" where
  "load_states X L s =
     (let w1 = awaiting X (load_meanwhile L)
                 (s\<lparr>runtimeStatus := ''Loading Python runtime'' @ ellipsis\<rparr>);
          s1 = last w1
      in case load_result L of
           Inl e \<Rightarrow> w1 @ [load_catch e s1]
         | Inr g \<Rightarrow>
             (let w2 = awaiting X (patch_meanwhile L)
                         (s1\<lparr>pyodide_loaded := True, py_globals := g,
                             py_calls := py_calls s1 @ [Input_patch]\<rparr>);
                  s3 = (last w2)\<lparr>py_globals := patch_globals L\<rparr>
              in case patch_rejected L of
                   Some e \<Rightarrow> w1 @ w2 @ [load_catch e s3]
                 | None \<Rightarrow> w1 @ w2 @ [s3\<lparr>pyReady := True, runtimeStatus := ''Python ready''\<rparr>]))"

definition load_runtime :: "'v externals \<Rightarrow> 'v loading \<Rightarrow> ('v, 'a) page \<Rightarrow> ('v, 'a) page" where
  "load_runtime X L s = last (load_states X L s)"

text \<open>The value thrown into \<^verbatim>\<open>catch\<close>, if one is.\<close>

definition load_thrown :: "'v loading \<Rightarrow> js_error option" where
  "load_thrown L = (case load_result L of Inl e \<Rightarrow> Some e | Inr g \<Rightarrow> patch_rejected L)"

text \<open>
  The page when the script has run down to its last line, from what the markup gives
  and from the stored item: the editor holds its first text, with the focus, the
  variables of the script hold their first values, the toolbox is restored. The loader
  has yet to run.
\<close>

record markup =
  m_outputEl :: output_el
  m_runtimeStatus :: string
  m_editorStatus :: string
  m_runBtn_disabled :: bool
  m_variablesEl :: string
  m_sections :: "section_el list"

definition first_lines :: "string list" where
  "first_lines =
     [''#Welcome to Glide, an online Python IDE'',
      ''#Try snippets from the left or type your own code, then click '' @ [CHR 0x27] @ ''Run'' @ [CHR 0x27],
      [],
      ''print('' @ [CHR 0x22] @ ''Hello, world!'' @ [CHR 0x22] @ '')'',
      []]"

definition script_start :: "markup \<Rightarrow> 'a stored option \<Rightarrow> ('v, 'a) page" where
  "script_start m item =
     \<lparr>pyodide_loaded = False, pyReady = False, py_globals = [], py_calls = [],
      outputEl = m_outputEl m, runtimeStatus = m_runtimeStatus m,
      editorStatus = m_editorStatus m, runBtn_disabled = m_runBtn_disabled m,
      variablesEl = m_variablesEl m,
      editor = \<lparr>doc_lines = first_lines, cur_line = 0, cur_ch = 0, focused = True\<rparr>,
      toolbox = persistToolbox item (m_sections m),
      console = [], downloads = []\<rparr>"

section \<open>A sample session\<close>

text \<open>
  Concrete values on which the properties below are tried. A Python value is written
  as the text \<^verbatim>\<open>repr\<close> gives for it; the value \<open>?\<close> stands for an object whose
  \<^verbatim>\<open>repr\<close> raises, and no sample value can be called. For the object that
  \<^verbatim>\<open>runPython\<close> returns the sample takes what Pyodide's proxy of a dict gives: the
  proxy answers a property read from the attributes of the dict, and has no enumerable
  property of its own, whatever the dict holds. The sample page is the
  page after a successful load, when the user has typed the two lines \<^verbatim>\<open>x = 5\<close> and
  \<^verbatim>\<open>print(x)\<close>.
\<close>

definition sample_not_callable :: js_error where
  "sample_not_callable =
     \<lparr>message = Some ''TypeError: object is not callable'', as_string = ''PythonError'',
      as_operand = Some ''PythonError''\<rparr>"

definition sample_X :: "string externals" where
  "sample_X =
     \<lparr>import_builtins = Inr ''<module builtins>'',
      py_repr = (\<lambda>v. if v = ''?''
                      then Inl \<lparr>message = Some ''repr failed'', as_string = ''PythonError'',
                                as_operand = Some ''PythonError''\<rparr>
                      else Inr v),
      dir_builtins = [''__name__'', ''input'', ''len'', ''print''],
      called_as_globals = (\<lambda>f. Inl sample_not_callable),
      called_as_repr = (\<lambda>f v. Inl sample_not_callable),
      called_as_dir = (\<lambda>f k. Inl sample_not_callable),
      own_entries = (\<lambda>d. Inr []),
      smart_indent = (\<lambda>i ed. ed)\<rparr>"

text \<open>For comparison, an interpreter that hands the dict over as an object with the
  entries of the dict for its own properties.\<close>

definition sample_converting_X :: "string externals" where
  "sample_converting_X = sample_X\<lparr>own_entries := (\<lambda>d. Inr d)\<rparr>"

definition sample_markup :: markup where
  "sample_markup =
     \<lparr>m_outputEl = \<lparr>textContent = [], scrolled_to_end = False\<rparr>,
      m_runtimeStatus = [], m_editorStatus = [], m_runBtn_disabled = False,
      m_variablesEl = [],
      m_sections = [\<lparr>data_key = Some ''loops'', is_open = False\<rparr>,
                    \<lparr>data_key = Some ''io'', is_open = True\<rparr>]\<rparr>"

definition sample_toolbox :: "unit toolbox" where
  "sample_toolbox = persistToolbox None (m_sections sample_markup)"

definition sample_editor :: editor_st where
  "sample_editor =
     \<lparr>doc_lines = [''x = 5'', ''if x:'', []], cur_line = 1, cur_ch = 5, focused = False\<rparr>"

definition sample_smart :: "nat \<Rightarrow> editor_st \<Rightarrow> editor_st" where
  "sample_smart i ed = ed\<lparr>doc_lines := (doc_lines ed)[i := TAB # line_at (doc_lines ed) i]\<rparr>"

definition sample_globals :: "string globals" where
  "sample_globals =
     [(''__name__'', ''__main__''), (''builtins'', ''<module builtins>''), (''js'', ''<module js>'')]"

definition sample_loading :: "string loading" where
  "sample_loading =
     \<lparr>load_meanwhile = [], load_result = Inr [(''__name__'', ''__main__'')],
      patch_meanwhile = [], patch_globals = sample_globals, patch_rejected = None\<rparr>"

definition sample_page :: "(string, unit) page" where
  "sample_page =
     (load_runtime sample_X sample_loading (script_start sample_markup None))
       \<lparr>editor := \<lparr>doc_lines = [''x = 5'', ''print(x)''], cur_line = 1, cur_ch = 8,
                    focused = True\<rparr>\<rparr>"

definition sample_import :: "string py_call" where
  "sample_import =
     \<lparr>happenings = [],
      globals_after = sample_globals @ [(''sys'', ''<module sys>''), (''traceback'', ''<module traceback>'')],
      rejected = None\<rparr>"

definition sample_run :: "string py_call" where
  "sample_run =
     \<lparr>happenings = [Printed ''5''],
      globals_after = globals_after sample_import @ [(''x'', ''5'')],
      rejected = None\<rparr>"

definition sample_failing_run :: "string py_call" where
  "sample_failing_run =
     \<lparr>happenings = [Printed ''5'', Clicked ClearClick],
      globals_after = globals_after sample_import @ [(''x'', ''5'')],
      rejected = Some \<lparr>message = Some ''NameError: name y is not defined'',
                       as_string = ''PythonError'', as_operand = Some ''PythonError''\<rparr>\<rparr>"

definition sample_unprintable_run :: "string py_call" where
  "sample_unprintable_run =
     \<lparr>happenings = [],
      globals_after = globals_after sample_import @ [(''obj'', ''?'')],
      rejected = None\<rparr>"

text \<open>A thrown Symbol has no message; \<^verbatim>\<open>String\<close> converts it, the operator
  \<^verbatim>\<open>+\<close> throws.\<close>

definition sample_symbol :: js_error where
  "sample_symbol = \<lparr>message = None, as_string = ''Symbol(stop)'', as_operand = None\<rparr>"

definition sample_symbol_load :: "string loading" where
  "sample_symbol_load =
     \<lparr>load_meanwhile = [], load_result = Inl sample_symbol,
      patch_meanwhile = [], patch_globals = [], patch_rejected = None\<rparr>"

definition sample_symbol_run :: "string py_call" where
  "sample_symbol_run =
     \<lparr>happenings = [], globals_after = globals_after sample_import,
      rejected = Some sample_symbol\<rparr>"

definition sample_failing_load :: "string loading" where
  "sample_failing_load =
     \<lparr>load_meanwhile = [Arrives (RunClick sample_import sample_run)],
      load_result = Inl \<lparr>message = Some ''Failed to fetch'',
                        as_string = ''TypeError: Failed to fetch'',
                        as_operand = Some ''TypeError: Failed to fetch''\<rparr>,
      patch_meanwhile = [], patch_globals = [], patch_rejected = None\<rparr>"

chapter \<open>Properties\<close>

section \<open>Strings\<close>

lemma startsWith_Nil [simp]: "startsWith s []"
  by (simp add: startsWith_def)

lemma startsWith_iff: "startsWith s t \<longleftrightarrow> (\<exists>v. s = t @ v)"
  unfolding startsWith_def
  by (metis append_eq_conv_conj append_take_drop_id)

lemma startsWith_length: "startsWith s t \<Longrightarrow> length t \<le> length s"
proof -
  assume "startsWith s t"
  then have "length (take (length t) s) = length t" by (simp add: startsWith_def)
  then show ?thesis by simp
qed

lemma endsWith_iff: "endsWith s t \<longleftrightarrow> (\<exists>u. s = u @ t)"
proof
  assume "endsWith s t"
  then have "s = take (length s - length t) s @ t"
    unfolding endsWith_def by (metis append_take_drop_id)
  then show "\<exists>u. s = u @ t" ..
next
  assume "\<exists>u. s = u @ t"
  then show "endsWith s t" by (auto simp: endsWith_def)
qed

lemma endsWith_append [simp]: "endsWith (u @ t) t"
  by (auto simp: endsWith_iff)

lemma endsWith_LF: "endsWith s [LF] \<longleftrightarrow> s \<noteq> [] \<and> last s = LF"
  by (auto simp: endsWith_iff) (metis append_butlast_last_id)

lemma endsWith_rev: "endsWith s t \<longleftrightarrow> startsWith (rev s) (rev t)"
  unfolding endsWith_iff startsWith_iff
  by (metis rev_append rev_rev_ident)

text \<open>\<open>includes_str\<close> is the substring test.\<close>

lemma includes_str_iff: "includes_str s t \<longleftrightarrow> (\<exists>u v. s = u @ t @ v)"
proof (induction s)
  case Nil
  then show ?case by auto
next
  case (Cons c cs)
  show ?case
  proof
    assume "includes_str (c # cs) t"
    then consider "startsWith (c # cs) t" | "includes_str cs t" by auto
    then show "\<exists>u v. c # cs = u @ t @ v"
    proof cases
      case 1
      then obtain v where "c # cs = t @ v" by (auto simp: startsWith_iff)
      then have "c # cs = [] @ t @ v" by simp
      then show ?thesis by blast
    next
      case 2
      then obtain u v where "cs = u @ t @ v" using Cons.IH by auto
      then have "c # cs = (c # u) @ t @ v" by simp
      then show ?thesis by blast
    qed
  next
    assume "\<exists>u v. c # cs = u @ t @ v"
    then obtain u v where uv: "c # cs = u @ t @ v" by auto
    show "includes_str (c # cs) t"
    proof (cases u)
      case Nil
      with uv have "startsWith (c # cs) t" unfolding startsWith_iff by auto
      then show ?thesis by simp
    next
      case (Cons a u')
      with uv have "cs = u' @ t @ v" by simp
      then show ?thesis using Cons.IH by auto
    qed
  qed
qed

text \<open>The replacement: nothing to do without the first character of the pattern, and a
  match in the middle splits the work.\<close>

lemma replace2_Nil_iff: "r \<noteq> [] \<Longrightarrow> replace2 a b r s = [] \<longleftrightarrow> s = []"
  by (induction a b r s rule: replace2.induct) auto

lemma replace2_absent: "a \<notin> set s \<Longrightarrow> replace2 a b r s = s"
  by (induction a b r s rule: replace2.induct) auto

lemma replace2_match:
  "a \<noteq> b \<Longrightarrow> replace2 a b r (u @ a # b # v) = replace2 a b r u @ r @ replace2 a b r v"
  by (induction a b r u rule: replace2.induct) auto

lemma replace_crlf_Nil_iff [simp]: "replace_crlf s = [] \<longleftrightarrow> s = []"
  by (simp add: replace_crlf_def replace2_Nil_iff)

lemma replace_crlf_no_CR: "CR \<notin> set s \<Longrightarrow> replace_crlf s = s"
  by (simp add: replace_crlf_def replace2_absent)

lemma replace_crlf_pair:
  "replace_crlf (u @ CR # LF # v) = replace_crlf u @ LF # replace_crlf v"
  by (simp add: replace_crlf_def replace2_match)

lemma trailing_newlines_snoc [simp]: "trailing_newlines (s @ [LF]) = Suc (trailing_newlines s)"
  by (simp add: trailing_newlines_def)

lemma trailing_newlines_Nil [simp]: "trailing_newlines [] = 0"
  by (simp add: trailing_newlines_def)

lemma trailing_newlines_0_iff: "trailing_newlines s = 0 \<longleftrightarrow> \<not> endsWith s [LF]"
  by (cases s rule: rev_cases) (auto simp: trailing_newlines_def endsWith_LF)

text \<open>A string without the separator starts in \<open>w @ sep # v\<close> only where it starts in
  \<open>w\<close>, so its occurrences left and right of a separator add up.\<close>

lemma startsWith_append_sep:
  assumes "sep \<notin> set t"
  shows "startsWith (w @ sep # v) t \<longleftrightarrow> startsWith w t"
proof (cases "length t \<le> length w")
  case True
  then show ?thesis by (simp add: startsWith_def)
next
  case False
  then have "take (length t) (w @ sep # v) = w @ sep # take (length t - Suc (length w)) v"
    by (simp add: take_Cons' not_le)
  moreover have "w @ sep # take (length t - Suc (length w)) v \<noteq> t"
  proof
    assume "w @ sep # take (length t - Suc (length w)) v = t"
    then have "sep \<in> set t" by (metis in_set_conv_decomp)
    with assms show False by simp
  qed
  moreover have "take (length t) w \<noteq> t"
    using False startsWith_length [of w t] by (auto simp: startsWith_def)
  ultimately show ?thesis by (simp add: startsWith_def)
qed

lemma count_occ_append_sep:
  assumes "sep \<notin> set t" and "t \<noteq> []"
  shows "count_occ t (u @ sep # v) = count_occ t u + count_occ t v"
proof (induction u)
  case Nil
  have "\<not> startsWith (sep # v) t"
    using assms by (cases t) (auto simp: startsWith_def)
  then show ?case using assms by simp
next
  case (Cons c u)
  have "startsWith ((c # u) @ sep # v) t \<longleftrightarrow> startsWith (c # u) t"
    using assms(1) by (rule startsWith_append_sep)
  then show ?case using Cons by simp
qed

lemma count_occ_not_includes: "\<not> includes_str s t \<Longrightarrow> count_occ t s = 0"
  by (induction s) auto

lemma count_occ_shorter: "length s < length t \<Longrightarrow> count_occ t s = 0"
proof (induction s)
  case Nil
  then show ?case by auto
next
  case (Cons a s)
  then have "\<not> startsWith (a # s) t" using startsWith_length by fastforce
  then show ?case using Cons by simp
qed

lemma count_occ_self: "t \<noteq> [] \<Longrightarrow> count_occ t t = 1"
  by (cases t) (auto simp: startsWith_def count_occ_shorter)

section \<open>The output sink\<close>

lemma appendOutput_text:
  "textContent (appendOutput (Some text) el) =
     textContent el @ replace_crlf text
       @ (if text = [] \<or> endsWith (replace_crlf text) [LF] then [] else [LF])"
  by (simp add: Let_def)

lemma appendOutput_line:
  "CR \<notin> set t \<Longrightarrow>
   appendOutput (Some (t @ [LF])) el = \<lparr>textContent = textContent el @ t @ [LF], scrolled_to_end = True\<rparr>"
  by (simp add: Let_def replace_crlf_no_CR)

text \<open>
  Claim C4. For a non-empty string, \<open>appendOutput\<close> appends the string with every
  carriage return and line feed pair replaced by a line feed, and one more line feed
  only if that text does not end with one; the buffer then ends with a line feed. The
  replacement leaves a string without carriage returns as it is, and a pair in the
  middle becomes a line feed between the replaced halves. For \<open>null\<close> the sink is left
  as it was.
\<close>

theorem appendOutput_newline:
  "(text \<noteq> [] \<longrightarrow>
      textContent (appendOutput (Some text) el) =
        textContent el @ replace_crlf text
          @ (if endsWith (replace_crlf text) [LF] then [] else [LF]) \<and>
      endsWith (textContent (appendOutput (Some text) el)) [LF]) \<and>
   replace_crlf (u @ CR # LF # v) = replace_crlf u @ LF # replace_crlf v \<and>
   (CR \<notin> set text \<longrightarrow> replace_crlf text = text) \<and>
   appendOutput None el = el"
proof -
  have "endsWith (textContent (appendOutput (Some text) el)) [LF]" if "text \<noteq> []"
  proof (cases "endsWith (replace_crlf text) [LF]")
    case True
    then obtain w where "replace_crlf text = w @ [LF]" by (auto simp: endsWith_iff)
    then have "textContent (appendOutput (Some text) el) = (textContent el @ w) @ [LF]"
      using that by (simp add: appendOutput_text)
    then show ?thesis by (simp only: endsWith_append)
  next
    case False
    then have "textContent (appendOutput (Some text) el) = (textContent el @ replace_crlf text) @ [LF]"
      using that by (simp add: appendOutput_text)
    then show ?thesis by (simp only: endsWith_append)
  qed
  then show ?thesis
    by (simp add: appendOutput_text replace_crlf_pair replace_crlf_no_CR)
qed

theorem appendOutput_newline_witness:
  "''ab'' \<noteq> [] \<and> CR \<notin> set ''ab'' \<and>
   textContent (appendOutput (Some ''ab'') \<lparr>textContent = ''x'', scrolled_to_end = False\<rparr>) = ''xab\<newline>'' \<and>
   endsWith (textContent (appendOutput (Some ''ab'') \<lparr>textContent = ''x'', scrolled_to_end = False\<rparr>)) [LF]"
  using appendOutput_newline [of "''ab''" "\<lparr>textContent = ''x'', scrolled_to_end = False\<rparr>" "[]" "[]"]
  by (simp add: endsWith_def)

section \<open>The download action\<close>

lemma attribution_no_LF: "LF \<notin> set attribution"
  by (simp add: attribution_def)

lemma attribution_not_Nil: "attribution \<noteq> []"
  by (simp add: attribution_def)

lemma footer_eq: "footer = LF # LF # attribution @ [LF]"
  by (simp add: footer_def attribution_def)

lemma includes_str_snoc_LF:
  "includes_str (s @ [LF]) attribution \<longleftrightarrow> includes_str s attribution"
proof (induction s)
  case Nil
  then show ?case by (simp add: attribution_def startsWith_def)
next
  case (Cons c s)
  have "startsWith ((c # s) @ LF # []) attribution \<longleftrightarrow> startsWith (c # s) attribution"
    using attribution_no_LF by (rule startsWith_append_sep)
  then show ?case using Cons by simp
qed

lemma includes_str_ensure_newline:
  "includes_str (ensure_newline code0) attribution \<longleftrightarrow> includes_str code0 attribution"
  by (simp add: ensure_newline_def includes_str_snoc_LF)

lemma download_code_eq:
  "\<not> includes_str code0 attribution \<Longrightarrow> download_code code0 = ensure_newline code0 @ footer"
  by (simp add: download_code_def Let_def includes_str_ensure_newline)

lemma count_occ_footer: "count_occ attribution (w @ footer) = count_occ attribution w + 1"
proof -
  have "count_occ attribution (w @ LF # ([] @ LF # (attribution @ LF # []))) =
        count_occ attribution w
          + (count_occ attribution []
             + (count_occ attribution attribution + count_occ attribution []))"
    by (simp only: count_occ_append_sep [OF attribution_no_LF attribution_not_Nil])
  then show ?thesis
    by (simp add: footer_eq count_occ_self attribution_not_Nil)
qed

lemma trailing_newlines_ensure_newline:
  "trailing_newlines (ensure_newline code0) =
     (if code0 = [] then 0 else max 1 (trailing_newlines code0))"
  using trailing_newlines_0_iff [of code0] by (auto simp: ensure_newline_def)

text \<open>
  Claim C6, as stated, fails. The editor content \<open>x\<close> followed by two line feeds does
  not contain the comment; the file is that content followed by the footer, and the
  part before the footer ends with two line feeds, not with one.
\<close>

theorem download_code_counterexample:
  "\<not> includes_str ''x\<newline>\<newline>'' attribution \<and>
   download_code ''x\<newline>\<newline>'' = ''x\<newline>\<newline>'' @ footer \<and>
   code_portion (download_code ''x\<newline>\<newline>'') = ''x\<newline>\<newline>'' \<and>
   trailing_newlines (code_portion (download_code ''x\<newline>\<newline>'')) = 2"
  by code_simp

text \<open>
  Claim C6, amended. For editor content without the comment, the file is the content,
  then one line feed if the content is not empty and does not end with one, then the
  footer. The comment occurs in the file exactly once, and the file ends with the
  comment and a line feed. The part before the footer is empty for empty content;
  otherwise it ends with one line feed where the content ended with none, and with as
  many as the content ended with where it ended with some.
\<close>

theorem download_code_attribution:
  "\<not> includes_str code0 attribution \<longrightarrow>
     download_code code0 =
       (if code0 = [] \<or> endsWith code0 [LF] then code0 else code0 @ [LF]) @ footer \<and>
     count_occ attribution (download_code code0) = 1 \<and>
     endsWith (download_code code0) (attribution @ [LF]) \<and>
     trailing_newlines (code_portion (download_code code0)) =
       (if code0 = [] then 0 else max 1 (trailing_newlines code0))"
proof
  assume a: "\<not> includes_str code0 attribution"
  have 1: "download_code code0 = ensure_newline code0 @ footer"
    using a by (rule download_code_eq)
  have "count_occ attribution (ensure_newline code0) = 0"
    using a by (simp add: count_occ_not_includes includes_str_ensure_newline)
  then have 2: "count_occ attribution (download_code code0) = 1"
    by (simp add: 1 count_occ_footer)
  have "download_code code0 = (ensure_newline code0 @ [LF, LF]) @ (attribution @ [LF])"
    by (simp add: 1 footer_eq)
  then have 3: "endsWith (download_code code0) (attribution @ [LF])"
    by (simp only: endsWith_append)
  have "code_portion (download_code code0) = ensure_newline code0"
    by (simp add: code_portion_def 1)
  then have 4: "trailing_newlines (code_portion (download_code code0)) =
       (if code0 = [] then 0 else max 1 (trailing_newlines code0))"
    by (simp add: trailing_newlines_ensure_newline)
  from 1 have 5: "download_code code0 =
       (if code0 = [] \<or> endsWith code0 [LF] then code0 else code0 @ [LF]) @ footer"
    by (auto simp: ensure_newline_def)
  from 5 2 3 4 show "download_code code0 =
       (if code0 = [] \<or> endsWith code0 [LF] then code0 else code0 @ [LF]) @ footer \<and>
     count_occ attribution (download_code code0) = 1 \<and>
     endsWith (download_code code0) (attribution @ [LF]) \<and>
     trailing_newlines (code_portion (download_code code0)) =
       (if code0 = [] then 0 else max 1 (trailing_newlines code0))"
    by blast
qed

theorem download_code_attribution_witness:
  "\<not> includes_str ''x = 1'' attribution \<and>
   download_code ''x = 1'' = ''x = 1\<newline>\<newline>\<newline># Written using GLIDE\<newline>'' \<and>
   (download_code ''x = 1'' =
       (if ''x = 1'' = [] \<or> endsWith ''x = 1'' [LF] then ''x = 1'' else ''x = 1'' @ [LF]) @ footer \<and>
     count_occ attribution (download_code ''x = 1'') = 1 \<and>
     endsWith (download_code ''x = 1'') (attribution @ [LF]) \<and>
     trailing_newlines (code_portion (download_code ''x = 1'')) =
       (if ''x = 1'' = [] then 0 else max 1 (trailing_newlines ''x = 1'')))"
proof -
  have h: "\<not> includes_str ''x = 1'' attribution" by code_simp
  have v: "download_code ''x = 1'' = ''x = 1\<newline>\<newline>\<newline># Written using GLIDE\<newline>''"
    by code_simp
  from h v download_code_attribution [of "''x = 1''"] show ?thesis by blast
qed

section \<open>The file name\<close>

lemma of_char_lower_char:
  "(of_char (lower_char c) :: nat) =
     (if (65 \<le> (of_char c :: nat) \<and> (of_char c :: nat) \<le> 90) \<or>
         (192 \<le> (of_char c :: nat) \<and> (of_char c :: nat) \<le> 222 \<and> (of_char c :: nat) \<noteq> 215)
      then of_char c + 32 else of_char c)"
  by (simp add: lower_char_def Let_def)

lemma lower_char_eq_iff:
  "lower_char c = d \<longleftrightarrow> (of_char (lower_char c) :: nat) = of_char d"
  by (simp only: of_char_eq_iff)

lemma char_eq_iff_nat: "c = d \<longleftrightarrow> (of_char c :: nat) = of_char d"
  by (simp only: of_char_eq_iff)

lemma lower_char_p: "lower_char c = CHR ''p'' \<longleftrightarrow> c = CHR ''p'' \<or> c = CHR ''P''"
  unfolding lower_char_eq_iff of_char_lower_char char_eq_iff_nat [of c] by auto

lemma lower_char_y: "lower_char c = CHR ''y'' \<longleftrightarrow> c = CHR ''y'' \<or> c = CHR ''Y''"
  unfolding lower_char_eq_iff of_char_lower_char char_eq_iff_nat [of c] by auto

lemma lower_char_dot: "lower_char c = CHR ''.'' \<longleftrightarrow> c = CHR ''.''"
  unfolding lower_char_eq_iff of_char_lower_char char_eq_iff_nat [of c] by auto

lemma endsWith_toLowerCase_py: "endsWith (toLowerCase name) ''.py'' \<longleftrightarrow> ends_in_py name"
proof -
  have "endsWith (toLowerCase name) ''.py'' \<longleftrightarrow> startsWith (map lower_char (rev name)) ''yp.''"
    by (simp add: endsWith_rev toLowerCase_def rev_map)
  also have "\<dots> \<longleftrightarrow> ends_in_py name"
    by (auto simp: startsWith_def ends_in_py_def lower_char_p lower_char_y lower_char_dot
             split: list.splits)
  finally show ?thesis .
qed

lemma trim_all_space: "\<forall>c\<in>set a. is_space c \<Longrightarrow> trim a = []"
proof -
  assume "\<forall>c\<in>set a. is_space c"
  then have "dropWhile is_space a = []" by (induction a) auto
  then show ?thesis by (simp only: trim_def dropWhile.simps rev.simps)
qed

lemma download_filename_Some:
  "a \<noteq> [] \<Longrightarrow>
   download_filename (Some a) = (if ends_in_py (trim a) then trim a else trim a @ ''.py'')"
  by (simp add: download_filename_def or_suggested_def endsWith_toLowerCase_py)

text \<open>
  Claim C7. A cancelled prompt and an empty answer give the default name
  \<open>glide_code.py\<close>. Any other answer is taken, trimmed, as the name; \<open>.py\<close> is appended
  exactly when the name does not end in a dot, a P and a Y of either case.
\<close>

theorem download_filename_choice:
  "download_filename None = ''glide_code.py'' \<and>
   download_filename (Some []) = ''glide_code.py'' \<and>
   (a \<noteq> [] \<longrightarrow>
      download_filename (Some a) = (if ends_in_py (trim a) then trim a else trim a @ ''.py''))"
proof -
  have "download_filename None = ''glide_code.py''" by code_simp
  moreover have "download_filename (Some []) = ''glide_code.py''" by code_simp
  ultimately show ?thesis by (simp add: download_filename_Some)
qed

theorem download_filename_choice_witness:
  "''  notes '' \<noteq> [] \<and> trim ''  notes '' = ''notes'' \<and> \<not> ends_in_py ''notes'' \<and>
   download_filename (Some ''  notes '') = ''notes.py'' \<and>
   ''Plot.PY'' \<noteq> [] \<and> trim ''Plot.PY'' = ''Plot.PY'' \<and> ends_in_py ''Plot.PY'' \<and>
   download_filename (Some ''Plot.PY'') = ''Plot.PY''"
proof -
  have t1: "trim ''  notes '' = ''notes''" by code_simp
  have e1: "\<not> ends_in_py ''notes''" by code_simp
  have t2: "trim ''Plot.PY'' = ''Plot.PY''" by code_simp
  have e2: "ends_in_py ''Plot.PY''" by code_simp
  show ?thesis
    using download_filename_choice [of "''  notes ''"] download_filename_choice [of "''Plot.PY''"]
    by (simp add: t1 e1 t2 e2)
qed

text \<open>
  Claim C10. An answer of white space only is not replaced by the default name: it is
  trimmed to the empty string, and the file is named \<open>.py\<close>.
\<close>

theorem download_filename_whitespace:
  "a \<noteq> [] \<Longrightarrow> \<forall>c\<in>set a. is_space c \<Longrightarrow>
   or_suggested (Some a) = a \<and> trim a = [] \<and> download_filename (Some a) = ''.py''"
proof -
  assume "a \<noteq> []" and "\<forall>c\<in>set a. is_space c"
  then have "trim a = []" by (simp add: trim_all_space)
  moreover have "\<not> ends_in_py []" by (simp add: ends_in_py_def)
  ultimately show ?thesis using \<open>a \<noteq> []\<close> by (simp add: download_filename_Some or_suggested_def)
qed

theorem download_filename_whitespace_witness:
  "[CHR 0x20, TAB] \<noteq> [] \<and> is_space (CHR 0x20) \<and> is_space TAB \<and>
   trim [CHR 0x20, TAB] = [] \<and> download_filename (Some [CHR 0x20, TAB]) = ''.py''"
proof -
  have n: "[CHR 0x20, TAB] \<noteq> []" by simp
  have s: "is_space (CHR 0x20)" and t: "is_space TAB" by (simp_all add: is_space_def)
  from s t have w: "\<forall>c\<in>set [CHR 0x20, TAB]. is_space c" by simp
  from n s t download_filename_whitespace [OF n w] show ?thesis by blast
qed

section \<open>What the other listeners leave alone\<close>

lemma handle_ui_keeps:
  "pyReady (handle_ui X u s) = pyReady s"
  "runBtn_disabled (handle_ui X u s) = runBtn_disabled s"
  "py_calls (handle_ui X u s) = py_calls s"
  "py_globals (handle_ui X u s) = py_globals s"
  by (cases u; simp add: Let_def split: option.splits)+

lemma happen_keeps:
  "pyReady (happen X h s) = pyReady s"
  "runBtn_disabled (happen X h s) = runBtn_disabled s"
  "py_calls (happen X h s) = py_calls s"
  by (cases h; simp add: handle_ui_keeps)+

lemma states_through_keep:
  "p \<in> set (states_through X hs s) \<Longrightarrow>
   pyReady p = pyReady s \<and> runBtn_disabled p = runBtn_disabled s \<and> py_calls p = py_calls s"
proof (induction hs arbitrary: s)
  case Nil
  then show ?case by simp
next
  case (Cons h hs)
  from Cons.prems consider "p = happen X h s" | "p \<in> set (states_through X hs (happen X h s))"
    by auto
  then show ?case
  proof cases
    case 1
    then show ?thesis by (simp add: happen_keeps)
  next
    case 2
    from Cons.IH [OF 2] show ?thesis by (simp add: happen_keeps)
  qed
qed

lemma pending_not_Nil [simp]: "pending X src c s \<noteq> []"
  by (simp add: pending_def Let_def)

lemma pending_keep:
  "p \<in> set (pending X src c s) \<Longrightarrow>
   pyReady p = pyReady s \<and> runBtn_disabled p = runBtn_disabled s \<and> py_calls p = py_calls s @ [src]"
  using states_through_keep [of p X "happenings c" "s\<lparr>py_calls := py_calls s @ [src]\<rparr>"]
  by (auto simp: pending_def Let_def)

lemma settled_keep:
  "pyReady (settled X src c s) = pyReady s"
  "runBtn_disabled (settled X src c s) = runBtn_disabled s"
  "py_calls (settled X src c s) = py_calls s @ [src]"
  "py_globals (settled X src c s) = globals_after c"
  using pending_keep [of "last (pending X src c s)" X src c s]
  by (simp_all add: settled_def)

lemma updateVariables_keeps:
  "pyReady (updateVariables X s) = pyReady s"
  "runBtn_disabled (updateVariables X s) = runBtn_disabled s"
  "outputEl (updateVariables X s) = outputEl s"
  "editorStatus (updateVariables X s) = editorStatus s"
  by (simp_all add: updateVariables_def Let_def split: prod.splits sum.splits)


lemma run_finally_catch_keeps:
  "pyReady (run_finally s) = pyReady s"
  "pyReady (run_catch e s) = pyReady s"
  "runBtn_disabled (run_finally s) = False"
  by (simp_all add: run_finally_def run_catch_def)

lemma runBtn_click_pyReady: "pyReady (runBtn_click X c1 c2 s) = pyReady s"
  by (simp add: runBtn_click_def runBtn_click_states_def Let_def settled_keep
        updateVariables_keeps run_finally_catch_keeps split: option.splits)

lemma handle_event_pyReady: "pyReady (handle_event X ev s) = pyReady s"
  by (cases ev) (simp_all add: runBtn_click_pyReady handle_ui_keeps)

lemma fold_handle_event_pyReady: "pyReady (fold (handle_event X) evs s) = pyReady s"
  by (induction evs arbitrary: s) (simp_all add: handle_event_pyReady)

lemma arrive_pyReady: "pyReady (arrive X a s) = pyReady s"
  by (cases a) (simp_all add: handle_event_pyReady)

lemma fold_arrive_pyReady: "pyReady (fold (arrive X) as s) = pyReady s"
  by (induction as arbitrary: s) (simp_all add: arrive_pyReady)

lemma arrive_not_ready_py_calls: "\<not> pyReady s \<Longrightarrow> py_calls (arrive X a s) = py_calls s"
proof (cases a)
  case (Prints t)
  then show ?thesis by simp
next
  case (Arrives ev)
  assume "\<not> pyReady s"
  then show ?thesis
    using Arrives
    by (cases ev) (simp_all add: runBtn_click_def runBtn_click_states_def handle_ui_keeps)
qed

lemma arrive_states_keep:
  "\<not> pyReady s \<Longrightarrow> p \<in> set (arrive_states X as s) \<Longrightarrow>
   \<not> pyReady p \<and> py_calls p = py_calls s"
proof (induction as arbitrary: s)
  case Nil
  then show ?case by simp
next
  case (Cons a as)
  have n: "\<not> pyReady (arrive X a s)" using Cons.prems(1) by (simp add: arrive_pyReady)
  have c: "py_calls (arrive X a s) = py_calls s"
    using Cons.prems(1) by (rule arrive_not_ready_py_calls)
  from Cons.prems(2) consider "p = arrive X a s" | "p \<in> set (arrive_states X as (arrive X a s))"
    by auto
  then show ?case
  proof cases
    case 1
    then show ?thesis using n c by simp
  next
    case 2
    from Cons.IH [OF n 2] c show ?thesis by simp
  qed
qed

lemma awaiting_keep:
  "\<not> pyReady s \<Longrightarrow> p \<in> set (awaiting X as s) \<Longrightarrow>
   \<not> pyReady p \<and> py_calls p = py_calls s"
  using arrive_states_keep [of s p X as] by (auto simp: awaiting_def)

lemma awaiting_not_Nil [simp]: "awaiting X as s \<noteq> []"
  by (simp add: awaiting_def)

lemma last_awaiting_keep:
  "\<not> pyReady s \<Longrightarrow>
   \<not> pyReady (last (awaiting X as s)) \<and> py_calls (last (awaiting X as s)) = py_calls s"
  using awaiting_keep [of s "last (awaiting X as s)" X as] last_in_set [of "awaiting X as s"]
  by simp

lemma not_ready_notice:
  "appendOutput (Some ''Runtime not ready yet.\<newline>'') el =
     \<lparr>textContent = textContent el @ ''Runtime not ready yet.\<newline>'', scrolled_to_end = True\<rparr>"
  using appendOutput_line [of "''Runtime not ready yet.''" el] by simp

text \<open>
  Claim C1. A click on Run while the readiness flag is false ends at once, without a
  suspension. It hands nothing to the interpreter, and the state it leaves is the
  state before with the one notice appended to the output sink: every other part of
  the page is as it was.
\<close>

theorem run_click_not_ready:
  "\<not> pyReady s \<Longrightarrow>
   runBtn_click_states X c1 c2 s = [runBtn_click X c1 c2 s] \<and>
   runBtn_click X c1 c2 s =
     s\<lparr>outputEl := \<lparr>textContent = textContent (outputEl s) @ ''Runtime not ready yet.\<newline>'',
                      scrolled_to_end = True\<rparr>\<rparr> \<and>
   py_calls (runBtn_click X c1 c2 s) = py_calls s"
  by (simp add: runBtn_click_def runBtn_click_states_def not_ready_notice del: appendOutput.simps)

text \<open>
  Claim C3. In a run started with the readiness flag true, the Run button is disabled
  in every state of the page from the first suspension of the handler to its last, and
  there is such a state; in the state the handler leaves the button is enabled. This
  holds whatever the two awaited calls do, whether they resolve or reject.
\<close>

theorem run_button_disabled_while_running:
  "pyReady s \<Longrightarrow>
   butlast (runBtn_click_states X c1 c2 s) \<noteq> [] \<and>
   list_all runBtn_disabled (butlast (runBtn_click_states X c1 c2 s)) \<and>
   \<not> runBtn_disabled (runBtn_click X c1 c2 s)"
proof -
  assume ready: "pyReady s"
  let ?s1 = "s\<lparr>runBtn_disabled := True, editorStatus := ''Running'' @ ellipsis\<rparr>"
  let ?s2 = "settled X Import_sys_traceback c1 ?s1"
  let ?p1 = "pending X Import_sys_traceback c1 ?s1"
  let ?p2 = "pending X (Editor_code (getValue (editor ?s1))) c2 ?s2"
  have d1: "list_all runBtn_disabled ?p1"
    using pending_keep [of _ X Import_sys_traceback c1 ?s1]
    by (auto simp: list_all_iff)
  have "runBtn_disabled ?s2" by (simp add: settled_keep)
  then have d2: "list_all runBtn_disabled ?p2"
    using pending_keep [of _ X "Editor_code (getValue (editor ?s1))" c2 ?s2]
    by (auto simp: list_all_iff)
  have "\<exists>z. runBtn_click_states X c1 c2 s = ?p1 @ [run_finally z] \<or>
            runBtn_click_states X c1 c2 s = (?p1 @ ?p2) @ [run_finally z]"
    using ready
    by (cases "rejected c1"; cases "rejected c2")
       (auto simp add: runBtn_click_states_def Let_def)
  then obtain z where "runBtn_click_states X c1 c2 s = ?p1 @ [run_finally z] \<or>
            runBtn_click_states X c1 c2 s = (?p1 @ ?p2) @ [run_finally z]" ..
  then show ?thesis
  proof
    assume e: "runBtn_click_states X c1 c2 s = ?p1 @ [run_finally z]"
    have "butlast (runBtn_click_states X c1 c2 s) = ?p1"
      by (simp only: e butlast_snoc)
    moreover have "runBtn_click X c1 c2 s = run_finally z"
      by (simp only: runBtn_click_def e last_snoc)
    ultimately show ?thesis using d1 by (simp add: run_finally_catch_keeps)
  next
    assume e: "runBtn_click_states X c1 c2 s = (?p1 @ ?p2) @ [run_finally z]"
    have "butlast (runBtn_click_states X c1 c2 s) = ?p1 @ ?p2"
      by (simp only: e butlast_snoc)
    moreover have "runBtn_click X c1 c2 s = run_finally z"
      by (simp only: runBtn_click_def e last_snoc)
    ultimately show ?thesis using d1 d2 by (simp add: run_finally_catch_keeps)
  qed
qed

section \<open>Loading\<close>

lemma load_thrown_None_iff:
  "load_thrown L = None \<longleftrightarrow> (\<exists>g. load_result L = Inr g) \<and> patch_rejected L = None"
  by (cases "load_result L") (simp_all add: load_thrown_def)

lemma load_thrown_Some_iff:
  "load_thrown L = Some e \<longleftrightarrow>
     load_result L = Inl e \<or> (\<exists>g. load_result L = Inr g) \<and> patch_rejected L = Some e"
  by (cases "load_result L") (simp_all add: load_thrown_def)

lemma load_catch_facts:
  "pyReady (load_catch e s) = pyReady s"
  "py_calls (load_catch e s) = py_calls s"
  "runtimeStatus (load_catch e s) = ''Failed to load Python''"
  "textContent (outputEl (load_catch e s)) =
     (case error_operand e of
        None \<Rightarrow> textContent (outputEl s)
      | Some t \<Rightarrow>
          textContent (outputEl s) @ replace_crlf (''Error loading Pyodide:\<newline>'' @ t)
            @ (if endsWith (replace_crlf (''Error loading Pyodide:\<newline>'' @ t)) [LF]
               then [] else [LF]))"
  by (simp_all add: load_catch_def Let_def appendOutput_text split: option.splits
        del: appendOutput.simps)

text \<open>
  The states of the loader are the states in which it waits, none with the flag set,
  and then the state it leaves. The interpreter has been handed the source that
  replaces \<^verbatim>\<open>input\<close>, and nothing else, exactly when \<^verbatim>\<open>loadPyodide\<close> resolved.
\<close>

lemma load_states_shape:
  assumes n: "\<not> pyReady s"
  shows "\<exists>w z. load_states X L s = w @ [z] \<and> w \<noteq> [] \<and>
           list_all (\<lambda>p. \<not> pyReady p) w \<and>
           py_calls (last w) =
             py_calls s @ (case load_result L of Inl e \<Rightarrow> [] | Inr g \<Rightarrow> [Input_patch]) \<and>
           (case load_thrown L of
              None \<Rightarrow>
                z = (last w)\<lparr>py_globals := patch_globals L, pyReady := True,
                             runtimeStatus := ''Python ready''\<rparr>
            | Some e \<Rightarrow>
                z = load_catch e (last w) \<or>
                z = load_catch e ((last w)\<lparr>py_globals := patch_globals L\<rparr>))"
proof -
  define s0 where "s0 = s\<lparr>runtimeStatus := ''Loading Python runtime'' @ ellipsis\<rparr>"
  define w1 where "w1 = awaiting X (load_meanwhile L) s0"
  have n0: "\<not> pyReady s0" and c0: "py_calls s0 = py_calls s"
    using n by (simp_all add: s0_def)
  have k1: "list_all (\<lambda>p. \<not> pyReady p) w1"
    using awaiting_keep [OF n0, of _ X "load_meanwhile L"] by (auto simp: list_all_iff w1_def)
  have l1: "\<not> pyReady (last w1)" "py_calls (last w1) = py_calls s"
    using last_awaiting_keep [OF n0, of X "load_meanwhile L"] c0 by (simp_all add: w1_def)
  have w1n: "w1 \<noteq> []" by (simp add: w1_def)
  show ?thesis
  proof (cases "load_result L")
    case (Inl e)
    have "load_states X L s = w1 @ [load_catch e (last w1)]"
      by (simp add: load_states_def Let_def Inl w1_def s0_def)
    then show ?thesis
      using w1n k1 l1 Inl by (intro exI [of _ w1] exI [of _ "load_catch e (last w1)"])
        (simp add: load_thrown_def)
  next
    case (Inr g)
    define s2 where "s2 = (last w1)\<lparr>pyodide_loaded := True, py_globals := g,
                             py_calls := py_calls (last w1) @ [Input_patch]\<rparr>"
    define w2 where "w2 = awaiting X (patch_meanwhile L) s2"
    have n2: "\<not> pyReady s2" and c2: "py_calls s2 = py_calls s @ [Input_patch]"
      using l1 by (simp_all add: s2_def)
    have k2: "list_all (\<lambda>p. \<not> pyReady p) w2"
      using awaiting_keep [OF n2, of _ X "patch_meanwhile L"] by (auto simp: list_all_iff w2_def)
    have l2: "py_calls (last w2) = py_calls s @ [Input_patch]"
      using last_awaiting_keep [OF n2, of X "patch_meanwhile L"] c2 by (simp add: w2_def)
    have w2n: "w2 \<noteq> []" by (simp add: w2_def)
    have lw: "last (w1 @ w2) = last w2" using w2n by simp
    show ?thesis
    proof (cases "patch_rejected L")
      case None
      have "load_states X L s =
          (w1 @ w2) @ [(last w2)\<lparr>py_globals := patch_globals L, pyReady := True,
                                 runtimeStatus := ''Python ready''\<rparr>]"
        by (simp add: load_states_def Let_def Inr None w1_def s0_def w2_def s2_def)
      then show ?thesis
        using w1n k1 k2 l2 lw Inr None
        by (intro exI [of _ "w1 @ w2"]
              exI [of _ "(last w2)\<lparr>py_globals := patch_globals L, pyReady := True,
                                   runtimeStatus := ''Python ready''\<rparr>"])
           (simp add: load_thrown_def)
    next
      case (Some e)
      have "load_states X L s =
          (w1 @ w2) @ [load_catch e ((last w2)\<lparr>py_globals := patch_globals L\<rparr>)]"
        by (simp add: load_states_def Let_def Inr Some w1_def s0_def w2_def s2_def)
      then show ?thesis
        using w1n k1 k2 l2 lw Inr Some
        by (intro exI [of _ "w1 @ w2"]
              exI [of _ "load_catch e ((last w2)\<lparr>py_globals := patch_globals L\<rparr>)"])
           (simp add: load_thrown_def)
    qed
  qed
qed

text \<open>
  The loader and the readiness flag. Starting with the flag false, the loader passes
  through at least one state before its last, and the flag is false in every one of
  them: while it waits for \<^verbatim>\<open>loadPyodide\<close> and while it waits for the call that
  replaces \<^verbatim>\<open>input\<close>, whatever arrives meanwhile. The flag is true in the state it
  leaves exactly when both resolved. In that state the interpreter has been handed the
  source that replaces \<^verbatim>\<open>input\<close> if \<^verbatim>\<open>loadPyodide\<close> resolved and nothing if it did
  not: no click on Run that arrived meanwhile has executed anything. If either step
  throws, the flag is false after the loader and stays false through every later
  sequence of events, and the status indicator reads \<open>Failed to load Python\<close>; the
  output sink receives \<open>Error loading Pyodide:\<close> and, on the next line, what the
  concatenation makes of the thrown value, and it receives nothing where the
  concatenation throws.
\<close>

theorem readiness_through_load:
  "\<not> pyReady s \<Longrightarrow>
   butlast (load_states X L s) \<noteq> [] \<and>
   list_all (\<lambda>p. \<not> pyReady p) (butlast (load_states X L s)) \<and>
   (pyReady (load_runtime X L s) \<longleftrightarrow>
      (\<exists>g. load_result L = Inr g) \<and> patch_rejected L = None) \<and>
   py_calls (load_runtime X L s) =
     py_calls s @ (case load_result L of Inl e \<Rightarrow> [] | Inr g \<Rightarrow> [Input_patch]) \<and>
   (load_result L = Inl e \<or> (\<exists>g. load_result L = Inr g) \<and> patch_rejected L = Some e \<longrightarrow>
      \<not> pyReady (fold (handle_event X) evs (load_runtime X L s)) \<and>
      runtimeStatus (load_runtime X L s) = ''Failed to load Python'' \<and>
      textContent (outputEl (load_runtime X L s)) =
        (case error_operand e of
           None \<Rightarrow> textContent (outputEl (last (butlast (load_states X L s))))
         | Some t \<Rightarrow>
             textContent (outputEl (last (butlast (load_states X L s))))
             @ replace_crlf (''Error loading Pyodide:\<newline>'' @ t)
             @ (if endsWith (replace_crlf (''Error loading Pyodide:\<newline>'' @ t)) [LF]
                then [] else [LF])))"
proof -
  assume n: "\<not> pyReady s"
  from load_states_shape [OF n, of X L] obtain w z where
    st: "load_states X L s = w @ [z]" and wn: "w \<noteq> []"
    and k: "list_all (\<lambda>p. \<not> pyReady p) w"
    and c: "py_calls (last w) =
             py_calls s @ (case load_result L of Inl e \<Rightarrow> [] | Inr g \<Rightarrow> [Input_patch])"
    and z: "case load_thrown L of
              None \<Rightarrow>
                z = (last w)\<lparr>py_globals := patch_globals L, pyReady := True,
                             runtimeStatus := ''Python ready''\<rparr>
            | Some e \<Rightarrow>
                z = load_catch e (last w) \<or>
                z = load_catch e ((last w)\<lparr>py_globals := patch_globals L\<rparr>)"
    by blast
  have b: "butlast (load_states X L s) = w" by (simp only: st butlast_snoc)
  have l: "load_runtime X L s = z" by (simp only: load_runtime_def st last_snoc)
  have lw: "\<not> pyReady (last w)" using k wn by (simp add: list_all_iff)
  have 1: "pyReady z \<longleftrightarrow> (\<exists>g. load_result L = Inr g) \<and> patch_rejected L = None"
  proof (cases "load_thrown L")
    case None
    then show ?thesis using z by (simp add: load_thrown_None_iff [symmetric])
  next
    case (Some e')
    then have "\<not> pyReady z" using z lw by (auto simp: load_catch_facts)
    then show ?thesis using Some by (simp add: load_thrown_None_iff [symmetric])
  qed
  have 2: "py_calls z =
     py_calls s @ (case load_result L of Inl e \<Rightarrow> [] | Inr g \<Rightarrow> [Input_patch])"
    using z c by (cases "load_thrown L") (auto simp: load_catch_facts)
  have 3: "\<not> pyReady (fold (handle_event X) evs z) \<and>
      runtimeStatus z = ''Failed to load Python'' \<and>
      textContent (outputEl z) =
        (case error_operand e of
           None \<Rightarrow> textContent (outputEl (last w))
         | Some t \<Rightarrow>
             textContent (outputEl (last w))
             @ replace_crlf (''Error loading Pyodide:\<newline>'' @ t)
             @ (if endsWith (replace_crlf (''Error loading Pyodide:\<newline>'' @ t)) [LF]
                then [] else [LF]))"
    if "load_result L = Inl e \<or> (\<exists>g. load_result L = Inr g) \<and> patch_rejected L = Some e"
  proof -
    from that have t: "load_thrown L = Some e" by (simp add: load_thrown_Some_iff)
    with 1 have "\<not> pyReady z" by (simp add: load_thrown_None_iff [symmetric])
    then have f: "\<not> pyReady (fold (handle_event X) evs z)"
      by (simp add: fold_handle_event_pyReady)
    from z t have "z = load_catch e (last w) \<or>
        z = load_catch e ((last w)\<lparr>py_globals := patch_globals L\<rparr>)" by simp
    then show ?thesis using f by (auto simp: load_catch_facts split: option.splits)
  qed
  from 1 2 3 wn k show ?thesis unfolding b l by blast
qed

section \<open>The variable inspector\<close>

lemma foldl_lines:
  "foldl (\<lambda>shown (k, v). shown @ k @ '' = '' @ v @ [LF]) acc vars =
     acc @ concat (map (\<lambda>(k, v). k @ '' = '' @ v @ [LF]) vars)"
  by (induction vars arbitrary: acc) auto

lemma render_variables_eq:
  "render_variables vars =
     (if vars = [] then ''(no variables)''
      else concat (map (\<lambda>(k, v). k @ '' = '' @ v @ [LF]) vars))"
  using foldl_lines [of "[]" vars] by (simp add: render_variables_def)

lemma resumed_facts:
  "pyReady (resumed X c1 c2 s) = pyReady s"
  "py_globals (resumed X c1 c2 s) = globals_after c2"
  by (simp_all add: resumed_def settled_keep)

lemma runBtn_click_resolved:
  "pyReady s \<Longrightarrow> rejected c1 = None \<Longrightarrow> rejected c2 = None \<Longrightarrow>
   runBtn_click X c1 c2 s =
     run_finally (updateVariables X ((resumed X c1 c2 s)\<lparr>editorStatus := ''Done''\<rparr>))"
  by (simp add: runBtn_click_def runBtn_click_states_def Let_def resumed_def)

lemma runBtn_click_rejected:
  "pyReady s \<Longrightarrow> rejected c1 = None \<Longrightarrow> rejected c2 = Some e \<Longrightarrow>
   runBtn_click X c1 c2 s = run_finally (run_catch e (resumed X c1 c2 s))"
  by (simp add: runBtn_click_def runBtn_click_states_def Let_def resumed_def)

lemma update_fresh: "k \<notin> fst ` set d \<Longrightarrow> AList.update k t d = d @ [(k, t)]"
  by (induction d) auto

lemma snapshot_plain:
  assumes d: "map_of g ''dir'' = None" and r: "map_of g ''repr'' = None"
  shows "distinct (map fst kvs) \<Longrightarrow> fst ` set d \<inter> fst ` set kvs = {} \<Longrightarrow>
     snapshot X g kvs d = Inr vars \<Longrightarrow>
     \<exists>new. vars = d @ new \<and>
       map (\<lambda>(k, v). (k, py_repr X v))
         (filter (\<lambda>(k, v). \<not> startsWith k ''__'' \<and> k \<notin> set (dir_builtins X)) kvs) =
       map (\<lambda>(k, t). (k, Inr t)) new"
proof (induction kvs arbitrary: d)
  case Nil
  then show ?case by simp
next
  case (Cons kv kvs)
  obtain k v where kv: "kv = (k, v)" by (cases kv)
  have dist: "distinct (map fst kvs)" and fresh: "k \<notin> fst ` set kvs"
    using Cons.prems(1) by (simp_all add: kv image_iff)
  have disj: "fst ` set d \<inter> fst ` set kvs = {}" and kd: "k \<notin> fst ` set d"
    using Cons.prems(2) by (auto simp: kv)
  show ?case
  proof (cases "startsWith k ''__'' \<or> k \<in> set (dir_builtins X)")
    case True
    then have "snapshot X g kvs d = Inr vars"
      using Cons.prems(3) d by (auto simp: kv listed_def split: if_splits)
    from Cons.IH [OF dist disj this] show ?thesis using True by (auto simp: kv)
  next
    case False
    show ?thesis
    proof (cases "py_repr X v")
      case (Inl e)
      then show ?thesis using Cons.prems(3) False d r by (simp add: kv listed_def repr_of_def)
    next
      case (Inr t)
      then have s: "snapshot X g kvs (d @ [(k, t)]) = Inr vars"
        using Cons.prems(3) False kd d r by (simp add: kv listed_def repr_of_def update_fresh)
      have "fst ` set (d @ [(k, t)]) \<inter> fst ` set kvs = {}"
        using disj fresh by auto
      from Cons.IH [OF dist this s] obtain new where
        "vars = (d @ [(k, t)]) @ new"
        "map (\<lambda>(k, v). (k, py_repr X v))
           (filter (\<lambda>(k, v). \<not> startsWith k ''__'' \<and> k \<notin> set (dir_builtins X)) kvs) =
         map (\<lambda>(k, t). (k, Inr t)) new"
        by blast
      then show ?thesis using False Inr by (intro exI [of _ "(k, t) # new"]) (simp add: kv)
    qed
  qed
qed

text \<open>
  The dict of the query. Where the editor code has left the names \<^verbatim>\<open>globals\<close>,
  \<^verbatim>\<open>dir\<close> and \<^verbatim>\<open>repr\<close> to the built-in functions, a query that returns binds
  \<^verbatim>\<open>builtins\<close> and gives a dict that has, in the order of the globals, exactly the
  names that do not start with two underscores and are not listed for the module, each
  with the \<^verbatim>\<open>repr\<close> of its value.
\<close>

theorem variables_query_plain:
  assumes "variables_query X g = (g1, Inr vars)"
    and "import_builtins X = Inr m"
    and "distinct (map fst g)"
    and "map_of g ''globals'' = None" and "map_of g ''dir'' = None"
    and "map_of g ''repr'' = None"
  shows "g1 = AList.update ''builtins'' m g \<and>
         map fst vars =
           filter (\<lambda>k. \<not> startsWith k ''__'' \<and> k \<notin> set (dir_builtins X)) (map fst g1) \<and>
         map (\<lambda>(k, v). (k, py_repr X v))
           (filter (\<lambda>(k, v). \<not> startsWith k ''__'' \<and> k \<notin> set (dir_builtins X)) g1) =
         map (\<lambda>(k, t). (k, Inr t)) vars"
proof -
  let ?keep = "\<lambda>(k, v). \<not> startsWith k ''__'' \<and> k \<notin> set (dir_builtins X)"
  note m = assms(2)
  have names: "map_of (AList.update ''builtins'' m g) ''globals'' = None"
    "map_of (AList.update ''builtins'' m g) ''dir'' = None"
    "map_of (AList.update ''builtins'' m g) ''repr'' = None"
    using assms(4-6) by (simp_all add: AList.update_conv')
  from assms(1) have g1: "g1 = AList.update ''builtins'' m g"
    and s: "snapshot X g1 g1 [] = Inr vars"
    by (auto simp: variables_query_def m Let_def names)
  have "distinct (map fst g1)" using assms(3) by (simp add: g1 AList.distinct_update)
  from snapshot_plain [OF _ _ this _ s] names g1
  have v: "map (\<lambda>(k, v). (k, py_repr X v)) (filter ?keep g1) = map (\<lambda>(k, t). (k, Inr t)) vars"
    by auto
  have "map fst vars = map fst (map (\<lambda>(k, t). (k, Inr t :: js_error + string)) vars)"
    by (simp add: case_prod_unfold comp_def)
  also have "\<dots> = map fst (map (\<lambda>(k, v). (k, py_repr X v)) (filter ?keep g1))"
    by (simp only: v)
  also have "\<dots> = map fst (filter ?keep g1)"
    by (simp add: case_prod_unfold comp_def)
  also have "\<dots> = filter (\<lambda>k. \<not> startsWith k ''__'' \<and> k \<notin> set (dir_builtins X)) (map fst g1)"
    by (simp add: filter_map case_prod_unfold comp_def)
  finally have f: "map fst vars =
      filter (\<lambda>k. \<not> startsWith k ''__'' \<and> k \<notin> set (dir_builtins X)) (map fst g1)" .
  from g1 f v show ?thesis by simp
qed

text \<open>
  The page after a run in which both calls resolved. The handler leaves the status
  \<open>Done\<close> and the button enabled in each case. What the inspector shows is made of the
  properties that the enumeration finds on the object returned, not of the dict of the
  query: \<open>(no variables)\<close> when it finds none, and otherwise a line \<open>name = value\<close> for
  each in its order. If the enumeration throws, the inspector is left empty and the
  console has the error; if the query raises, the inspector is as the run left it and
  the console has the error. The output sink is not written to.
\<close>

theorem inspector_after_run:
  "pyReady s \<Longrightarrow> rejected c1 = None \<Longrightarrow> rejected c2 = None \<Longrightarrow>
   (variables_query X (globals_after c2) = (g1, Inr vars) \<and> own_entries X vars = Inr entries \<longrightarrow>
      runBtn_click X c1 c2 s =
        (resumed X c1 c2 s)
          \<lparr>editorStatus := ''Done'', py_globals := g1,
           py_calls := py_calls (resumed X c1 c2 s) @ [Variables_source],
           variablesEl :=
             (if entries = [] then ''(no variables)''
              else concat (map (\<lambda>(k, t). k @ '' = '' @ t @ [LF]) entries)),
           runBtn_disabled := False\<rparr>) \<and>
   (variables_query X (globals_after c2) = (g1, Inr vars) \<and> own_entries X vars = Inl e \<longrightarrow>
      runBtn_click X c1 c2 s =
        (resumed X c1 c2 s)
          \<lparr>editorStatus := ''Done'', py_globals := g1,
           py_calls := py_calls (resumed X c1 c2 s) @ [Variables_source],
           variablesEl := [],
           console := console (resumed X c1 c2 s) @ [ConsoleError ''Error updating variables:'' e],
           runBtn_disabled := False\<rparr>) \<and>
   (variables_query X (globals_after c2) = (g1, Inl e) \<longrightarrow>
      runBtn_click X c1 c2 s =
        (resumed X c1 c2 s)
          \<lparr>editorStatus := ''Done'', py_globals := g1,
           py_calls := py_calls (resumed X c1 c2 s) @ [Variables_source],
           console := console (resumed X c1 c2 s) @ [ConsoleError ''Error updating variables:'' e],
           runBtn_disabled := False\<rparr>)"
proof -
  assume ready: "pyReady s" and r1: "rejected c1 = None" and r2: "rejected c2 = None"
  have click: "runBtn_click X c1 c2 s =
     run_finally (updateVariables X ((resumed X c1 c2 s)\<lparr>editorStatus := ''Done''\<rparr>))"
    using ready r1 r2 by (rule runBtn_click_resolved)
  show ?thesis
    using ready
    by (simp add: click run_finally_def updateVariables_def Let_def resumed_facts
          render_variables_eq)
qed

section \<open>The properties of the page on the sample session\<close>

lemmas sample_defs =
  sample_X_def sample_markup_def sample_globals_def sample_loading_def sample_page_def
  sample_import_def sample_run_def sample_failing_run_def sample_failing_load_def
  sample_unprintable_run_def sample_not_callable_def sample_symbol_def
  sample_symbol_load_def sample_symbol_run_def

lemmas load_defs = load_runtime_def load_states_def awaiting_def load_catch_def error_operand_def

lemma sample_page_ready: "pyReady sample_page"
  by (simp add: sample_defs load_defs script_start_def Let_def)

theorem run_click_not_ready_witness:
  "\<not> pyReady (script_start sample_markup None :: (string, unit) page) \<and>
   textContent (outputEl (runBtn_click sample_X sample_import sample_run
       (script_start sample_markup None :: (string, unit) page))) = ''Runtime not ready yet.\<newline>'' \<and>
   py_calls (runBtn_click sample_X sample_import sample_run
       (script_start sample_markup None :: (string, unit) page)) = []"
proof -
  have n: "\<not> pyReady (script_start sample_markup None :: (string, unit) page)"
    by (simp add: script_start_def)
  have o: "textContent (outputEl (script_start sample_markup None :: (string, unit) page)) = []"
    and c: "py_calls (script_start sample_markup None :: (string, unit) page) = []"
    by (simp_all add: script_start_def sample_markup_def)
  from run_click_not_ready [OF n, of sample_X sample_import sample_run]
  have "runBtn_click sample_X sample_import sample_run (script_start sample_markup None :: (string, unit) page) =
     (script_start sample_markup None)\<lparr>outputEl := \<lparr>textContent = textContent (outputEl (script_start sample_markup None :: (string, unit) page)) @ ''Runtime not ready yet.\<newline>'',
                      scrolled_to_end = True\<rparr>\<rparr>"
    by blast
  then show ?thesis using n o c by simp
qed

theorem run_button_disabled_while_running_witness:
  "pyReady sample_page \<and>
   map runBtn_disabled (runBtn_click_states sample_X sample_import sample_failing_run sample_page) =
     [True, True, True, True, False] \<and>
   list_all runBtn_disabled (butlast (runBtn_click_states sample_X sample_import sample_failing_run sample_page)) \<and>
   \<not> runBtn_disabled (runBtn_click sample_X sample_import sample_failing_run sample_page)"
proof -
  have "map runBtn_disabled (runBtn_click_states sample_X sample_import sample_failing_run sample_page) =
     [True, True, True, True, False]"
    using sample_page_ready
    by (simp add: runBtn_click_states_def pending_def settled_def run_finally_def run_catch_def
          Let_def sample_import_def sample_failing_run_def)
  then show ?thesis
    using sample_page_ready
      run_button_disabled_while_running [OF sample_page_ready, of sample_X sample_import sample_failing_run]
    by blast
qed


theorem readiness_through_load_witness:
  "\<not> pyReady (script_start sample_markup None :: (string, unit) page) \<and>
   load_result sample_failing_load =
     Inl \<lparr>message = Some ''Failed to fetch'', as_string = ''TypeError: Failed to fetch'',
          as_operand = Some ''TypeError: Failed to fetch''\<rparr> \<and>
   map pyReady (load_states sample_X sample_failing_load
                  (script_start sample_markup None :: (string, unit) page)) =
     [False, False, False] \<and>
   py_calls (load_runtime sample_X sample_failing_load
               (script_start sample_markup None :: (string, unit) page)) = [] \<and>
   \<not> pyReady (fold (handle_event sample_X) [RunClick sample_import sample_run]
                  (load_runtime sample_X sample_failing_load
                     (script_start sample_markup None :: (string, unit) page))) \<and>
   runtimeStatus (load_runtime sample_X sample_failing_load
                    (script_start sample_markup None :: (string, unit) page)) =
     ''Failed to load Python'' \<and>
   textContent (outputEl (load_runtime sample_X sample_failing_load
                            (script_start sample_markup None :: (string, unit) page))) =
     ''Runtime not ready yet.\<newline>Error loading Pyodide:\<newline>Failed to fetch\<newline>''"
proof -
  let ?s = "script_start sample_markup None :: (string, unit) page"
  let ?e = "\<lparr>message = Some ''Failed to fetch'', as_string = ''TypeError: Failed to fetch'',
          as_operand = Some ''TypeError: Failed to fetch''\<rparr>"
  have n: "\<not> pyReady ?s" by (simp add: script_start_def)
  have l: "load_result sample_failing_load = Inl ?e" by (simp add: sample_failing_load_def)
  have st: "load_states sample_X sample_failing_load ?s =
      awaiting sample_X [Arrives (RunClick sample_import sample_run)]
        (?s\<lparr>runtimeStatus := ''Loading Python runtime'' @ ellipsis\<rparr>)
      @ [load_catch ?e (last (awaiting sample_X [Arrives (RunClick sample_import sample_run)]
        (?s\<lparr>runtimeStatus := ''Loading Python runtime'' @ ellipsis\<rparr>)))]"
    by (simp add: load_states_def sample_failing_load_def Let_def)
  have m: "map pyReady (load_states sample_X sample_failing_load ?s) = [False, False, False]"
    unfolding st
    by (simp add: awaiting_def runBtn_click_def runBtn_click_states_def script_start_def
          load_catch_facts del: appendOutput.simps)
  have t: "textContent (outputEl (last (butlast (load_states sample_X sample_failing_load ?s)))) =
           ''Runtime not ready yet.\<newline>''"
    unfolding st
    by (simp add: awaiting_def runBtn_click_def runBtn_click_states_def script_start_def
          sample_markup_def not_ready_notice del: appendOutput.simps)
  have o: "error_operand ?e = Some ''Failed to fetch''" by (simp add: error_operand_def)
  have r: "replace_crlf (''Error loading Pyodide:\<newline>'' @ ''Failed to fetch'') =
           ''Error loading Pyodide:\<newline>Failed to fetch''"
    by code_simp
  have en: "\<not> endsWith ''Error loading Pyodide:\<newline>Failed to fetch'' [LF]"
    by code_simp
  have c: "py_calls ?s = []" by (simp add: script_start_def)
  note inst = readiness_through_load [OF n, where X = sample_X and L = sample_failing_load
      and e = ?e and evs = "[RunClick sample_import sample_run]"]
  from inst l c have b: "py_calls (load_runtime sample_X sample_failing_load ?s) = []"
    by simp
  from inst l
  have a: "\<not> pyReady (fold (handle_event sample_X) [RunClick sample_import sample_run]
                  (load_runtime sample_X sample_failing_load ?s)) \<and>
      runtimeStatus (load_runtime sample_X sample_failing_load ?s) = ''Failed to load Python'' \<and>
      textContent (outputEl (load_runtime sample_X sample_failing_load ?s)) =
        (case error_operand ?e of
           None \<Rightarrow> textContent (outputEl (last (butlast (load_states sample_X sample_failing_load ?s))))
         | Some t \<Rightarrow>
             textContent (outputEl (last (butlast (load_states sample_X sample_failing_load ?s))))
             @ replace_crlf (''Error loading Pyodide:\<newline>'' @ t)
             @ (if endsWith (replace_crlf (''Error loading Pyodide:\<newline>'' @ t)) [LF]
                then [] else [LF]))"
    by blast
  then have a1: "\<not> pyReady (fold (handle_event sample_X) [RunClick sample_import sample_run]
                  (load_runtime sample_X sample_failing_load ?s))"
    and a2: "runtimeStatus (load_runtime sample_X sample_failing_load ?s) = ''Failed to load Python''"
    and a3: "textContent (outputEl (load_runtime sample_X sample_failing_load ?s)) =
        (case error_operand ?e of
           None \<Rightarrow> textContent (outputEl (last (butlast (load_states sample_X sample_failing_load ?s))))
         | Some t \<Rightarrow>
             textContent (outputEl (last (butlast (load_states sample_X sample_failing_load ?s))))
             @ replace_crlf (''Error loading Pyodide:\<newline>'' @ t)
             @ (if endsWith (replace_crlf (''Error loading Pyodide:\<newline>'' @ t)) [LF]
                then [] else [LF]))"
    by blast+
  have f: "textContent (outputEl (load_runtime sample_X sample_failing_load ?s)) =
     ''Runtime not ready yet.\<newline>Error loading Pyodide:\<newline>Failed to fetch\<newline>''"
    unfolding a3 o option.case t r using en by simp
  from n l m b a1 a2 f show ?thesis by blast
qed

text \<open>
  Claim C2. The flag is set only after both steps have completed, a failure of either
  leaves it false for good, and the status indicator reports the failure: that much
  holds for every outcome, as shown above. The message in the output sink does not:
  \<^verbatim>\<open>catch\<close> builds it with \<^verbatim>\<open>"Error loading Pyodide:\n" + e\<close> for a thrown value
  without a message. Where \<^verbatim>\<open>loadPyodide\<close> rejects with a Symbol, the block sets the
  status text, the concatenation throws, and \<^verbatim>\<open>appendOutput\<close> is not reached: the
  flag is false, the status reads \<open>Failed to load Python\<close>, and the output sink is as
  it was, with no message. The \<^verbatim>\<open>catch\<close> block of the Run handler converts the
  same value with \<^verbatim>\<open>String\<close> and appends its text.
\<close>

theorem load_rejected_with_symbol:
  "load_thrown sample_symbol_load = Some sample_symbol \<and>
   \<not> pyReady (load_runtime sample_X sample_symbol_load
                  (script_start sample_markup None :: (string, unit) page)) \<and>
   runtimeStatus (load_runtime sample_X sample_symbol_load
                    (script_start sample_markup None :: (string, unit) page)) =
     ''Failed to load Python'' \<and>
   outputEl (load_runtime sample_X sample_symbol_load
               (script_start sample_markup None :: (string, unit) page)) =
     outputEl (script_start sample_markup None :: (string, unit) page) \<and>
   textContent (outputEl (load_runtime sample_X sample_symbol_load
                            (script_start sample_markup None :: (string, unit) page))) = [] \<and>
   rejected sample_symbol_run = Some sample_symbol \<and>
   textContent (outputEl (runBtn_click sample_X sample_import sample_symbol_run sample_page)) =
     ''Symbol(stop)\<newline>''"
proof -
  let ?s = "script_start sample_markup None :: (string, unit) page"
  have t: "load_thrown sample_symbol_load = Some sample_symbol"
    by (simp add: load_thrown_def sample_symbol_load_def)
  have l: "load_runtime sample_X sample_symbol_load ?s = ?s\<lparr>runtimeStatus := ''Failed to load Python''\<rparr>"
    by (simp add: load_defs sample_symbol_load_def sample_symbol_def Let_def)
  have o: "textContent (outputEl ?s) = []" by (simp add: script_start_def sample_markup_def)
  have n: "\<not> pyReady ?s" by (simp add: script_start_def)
  have r: "rejected sample_symbol_run = Some sample_symbol" by (simp add: sample_symbol_run_def)
  have x: "error_text sample_symbol @ [LF] = ''Symbol(stop)\<newline>''"
    by (simp add: error_text_def sample_symbol_def)
  have r1: "rejected sample_import = None" by (simp add: sample_import_def)
  have p: "outputEl (resumed sample_X sample_import sample_symbol_run sample_page) =
           \<lparr>textContent = [], scrolled_to_end = False\<rparr>"
    by (simp add: resumed_def settled_def pending_def Let_def sample_import_def
          sample_symbol_run_def sample_page_def sample_loading_def load_defs script_start_def
          sample_markup_def)
  have c: "textContent (outputEl (runBtn_click sample_X sample_import sample_symbol_run sample_page)) =
     ''Symbol(stop)\<newline>''"
    unfolding runBtn_click_rejected [OF sample_page_ready r1 r]
    using appendOutput_line [of "''Symbol(stop)''" "\<lparr>textContent = [], scrolled_to_end = False\<rparr>"]
    by (simp add: run_finally_def run_catch_def x p del: appendOutput.simps)
  from t l o n r c show ?thesis by simp
qed

lemma sample_page_fields:
  "outputEl sample_page = \<lparr>textContent = [], scrolled_to_end = False\<rparr>"
  "variablesEl sample_page = []"
  "console sample_page = []"
  by (simp_all add: sample_defs load_defs script_start_def Let_def)

lemma resumed_sample:
  "outputEl (resumed sample_X sample_import sample_run sample_page) =
     \<lparr>textContent = ''5\<newline>'', scrolled_to_end = True\<rparr>"
  "console (resumed sample_X sample_import sample_run sample_page) = []"
  "variablesEl (resumed sample_X sample_import sample_unprintable_run sample_page) = []"
  "console (resumed sample_X sample_import sample_unprintable_run sample_page) = []"
  by (simp_all add: resumed_def settled_def pending_def Let_def sample_import_def sample_run_def
        sample_unprintable_run_def sample_page_fields replace_crlf_def endsWith_def)

lemma sample_queries:
  "variables_query sample_X (globals_after sample_run) =
     ([(''__name__'', ''__main__''), (''builtins'', ''<module builtins>''),
       (''js'', ''<module js>''), (''sys'', ''<module sys>''),
       (''traceback'', ''<module traceback>''), (''x'', ''5'')],
      Inr [(''builtins'', ''<module builtins>''), (''js'', ''<module js>''),
           (''sys'', ''<module sys>''), (''traceback'', ''<module traceback>''),
           (''x'', ''5'')])"
  "variables_query sample_X (globals_after sample_unprintable_run) =
     ([(''__name__'', ''__main__''), (''builtins'', ''<module builtins>''),
       (''js'', ''<module js>''), (''sys'', ''<module sys>''),
       (''traceback'', ''<module traceback>''), (''obj'', ''?'')],
      Inl \<lparr>message = Some ''repr failed'', as_string = ''PythonError'',
           as_operand = Some ''PythonError''\<rparr>)"
  by (simp_all add: variables_query_def Let_def listed_def repr_of_def startsWith_def sample_X_def
        sample_run_def sample_unprintable_run_def sample_import_def sample_globals_def)

theorem variables_query_plain_witness:
  "variables_query sample_X (globals_after sample_run) =
     ([(''__name__'', ''__main__''), (''builtins'', ''<module builtins>''),
       (''js'', ''<module js>''), (''sys'', ''<module sys>''),
       (''traceback'', ''<module traceback>''), (''x'', ''5'')],
      Inr [(''builtins'', ''<module builtins>''), (''js'', ''<module js>''),
           (''sys'', ''<module sys>''), (''traceback'', ''<module traceback>''),
           (''x'', ''5'')]) \<and>
   import_builtins sample_X = Inr ''<module builtins>'' \<and>
   distinct (map fst (globals_after sample_run)) \<and>
   map_of (globals_after sample_run) ''globals'' = None \<and>
   map_of (globals_after sample_run) ''dir'' = None \<and>
   map_of (globals_after sample_run) ''repr'' = None \<and>
   [''builtins'', ''js'', ''sys'', ''traceback'', ''x''] =
     filter (\<lambda>k. \<not> startsWith k ''__'' \<and> k \<notin> set (dir_builtins sample_X))
       [''__name__'', ''builtins'', ''js'', ''sys'', ''traceback'', ''x'']"
proof -
  have i: "import_builtins sample_X = Inr ''<module builtins>''" by (simp add: sample_X_def)
  have g: "globals_after sample_run =
      [(''__name__'', ''__main__''), (''builtins'', ''<module builtins>''),
       (''js'', ''<module js>''), (''sys'', ''<module sys>''),
       (''traceback'', ''<module traceback>''), (''x'', ''5'')]"
    by (simp add: sample_run_def sample_import_def sample_globals_def)
  have d: "distinct (map fst (globals_after sample_run))" unfolding g by simp
  have n: "map_of (globals_after sample_run) ''globals'' = None"
    "map_of (globals_after sample_run) ''dir'' = None"
    "map_of (globals_after sample_run) ''repr'' = None"
    unfolding g by simp_all
  from variables_query_plain [OF sample_queries(1) i d n]
  have "[''builtins'', ''js'', ''sys'', ''traceback'', ''x''] =
     filter (\<lambda>k. \<not> startsWith k ''__'' \<and> k \<notin> set (dir_builtins sample_X))
       [''__name__'', ''builtins'', ''js'', ''sys'', ''traceback'', ''x'']"
    by simp
  with sample_queries(1) i d n show ?thesis by blast
qed

lemma sample_converting_query:
  "variables_query sample_converting_X (globals_after sample_run) =
     ([(''__name__'', ''__main__''), (''builtins'', ''<module builtins>''),
       (''js'', ''<module js>''), (''sys'', ''<module sys>''),
       (''traceback'', ''<module traceback>''), (''x'', ''5'')],
      Inr [(''builtins'', ''<module builtins>''), (''js'', ''<module js>''),
           (''sys'', ''<module sys>''), (''traceback'', ''<module traceback>''),
           (''x'', ''5'')])"
  by (simp add: variables_query_def Let_def listed_def repr_of_def startsWith_def sample_X_def
        sample_converting_X_def sample_run_def sample_import_def sample_globals_def)

lemma resumed_sample_converting:
  "resumed sample_converting_X sample_import sample_run sample_page =
   resumed sample_X sample_import sample_run sample_page"
  by (simp add: resumed_def settled_def pending_def Let_def sample_import_def sample_run_def)

theorem inspector_after_run_witness:
  "pyReady sample_page \<and> rejected sample_import = None \<and> rejected sample_run = None \<and>
   rejected sample_unprintable_run = None \<and>
   variablesEl (runBtn_click sample_converting_X sample_import sample_run sample_page) =
     ''builtins = <module builtins>\<newline>js = <module js>\<newline>sys = <module sys>\<newline>traceback = <module traceback>\<newline>x = 5\<newline>'' \<and>
   textContent (outputEl (runBtn_click sample_converting_X sample_import sample_run sample_page)) =
     ''5\<newline>'' \<and>
   editorStatus (runBtn_click sample_converting_X sample_import sample_run sample_page) = ''Done'' \<and>
   console (runBtn_click sample_X sample_import sample_unprintable_run sample_page) =
     [ConsoleError ''Error updating variables:''
        \<lparr>message = Some ''repr failed'', as_string = ''PythonError'',
         as_operand = Some ''PythonError''\<rparr>] \<and>
   variablesEl (runBtn_click sample_X sample_import sample_unprintable_run sample_page) = [] \<and>
   editorStatus (runBtn_click sample_X sample_import sample_unprintable_run sample_page) = ''Done'' \<and>
   \<not> runBtn_disabled (runBtn_click sample_X sample_import sample_unprintable_run sample_page)"
proof -
  let ?g1 = "[(''__name__'', ''__main__''), (''builtins'', ''<module builtins>''),
       (''js'', ''<module js>''), (''sys'', ''<module sys>''),
       (''traceback'', ''<module traceback>''), (''x'', ''5'')]"
  let ?vars = "[(''builtins'', ''<module builtins>''), (''js'', ''<module js>''),
           (''sys'', ''<module sys>''), (''traceback'', ''<module traceback>''),
           (''x'', ''5'')]"
  let ?g2 = "[(''__name__'', ''__main__''), (''builtins'', ''<module builtins>''),
       (''js'', ''<module js>''), (''sys'', ''<module sys>''),
       (''traceback'', ''<module traceback>''), (''obj'', ''?'')]"
  let ?e = "\<lparr>message = Some ''repr failed'', as_string = ''PythonError'',
         as_operand = Some ''PythonError''\<rparr>"
  have r1: "rejected sample_import = None" and r2: "rejected sample_run = None"
    and r3: "rejected sample_unprintable_run = None"
    by (simp_all add: sample_import_def sample_run_def sample_unprintable_run_def)
  have en: "own_entries sample_converting_X ?vars = Inr ?vars"
    by (simp add: sample_converting_X_def)
  from inspector_after_run [OF sample_page_ready r1 r2, where X = sample_converting_X
      and ?g1.0 = ?g1 and vars = ?vars and entries = ?vars] sample_converting_query en
  have e1: "runBtn_click sample_converting_X sample_import sample_run sample_page =
        (resumed sample_converting_X sample_import sample_run sample_page)
          \<lparr>editorStatus := ''Done'', py_globals := ?g1,
           py_calls := py_calls (resumed sample_converting_X sample_import sample_run sample_page)
                       @ [Variables_source],
           variablesEl :=
             (if ?vars = [] then ''(no variables)''
              else concat (map (\<lambda>(k, t). k @ '' = '' @ t @ [LF]) ?vars)),
           runBtn_disabled := False\<rparr>"
    by blast
  from inspector_after_run [OF sample_page_ready r1 r3, where X = sample_X and ?g1.0 = ?g2
      and e = ?e] sample_queries(2)
  have e2: "runBtn_click sample_X sample_import sample_unprintable_run sample_page =
        (resumed sample_X sample_import sample_unprintable_run sample_page)
          \<lparr>editorStatus := ''Done'', py_globals := ?g2,
           py_calls := py_calls (resumed sample_X sample_import sample_unprintable_run sample_page)
                       @ [Variables_source],
           console := console (resumed sample_X sample_import sample_unprintable_run sample_page)
                      @ [ConsoleError ''Error updating variables:'' ?e],
           runBtn_disabled := False\<rparr>"
    by blast
  have v1: "variablesEl (runBtn_click sample_converting_X sample_import sample_run sample_page) =
     ''builtins = <module builtins>\<newline>js = <module js>\<newline>sys = <module sys>\<newline>traceback = <module traceback>\<newline>x = 5\<newline>''"
    unfolding e1 by simp
  have o1: "textContent (outputEl (runBtn_click sample_converting_X sample_import sample_run sample_page)) =
     ''5\<newline>''"
    unfolding e1 by (simp add: resumed_sample_converting resumed_sample)
  have s1: "editorStatus (runBtn_click sample_converting_X sample_import sample_run sample_page) = ''Done''"
    unfolding e1 by simp
  have c2: "console (runBtn_click sample_X sample_import sample_unprintable_run sample_page) =
     [ConsoleError ''Error updating variables:'' ?e]"
    unfolding e2 by (simp add: resumed_sample)
  have v2: "variablesEl (runBtn_click sample_X sample_import sample_unprintable_run sample_page) = []"
    unfolding e2 by (simp add: resumed_sample)
  have s2: "editorStatus (runBtn_click sample_X sample_import sample_unprintable_run sample_page) = ''Done''"
    unfolding e2 by simp
  have d2: "\<not> runBtn_disabled (runBtn_click sample_X sample_import sample_unprintable_run sample_page)"
    unfolding e2 by simp
  from sample_page_ready r1 r2 r3 v1 o1 s1 c2 v2 s2 d2 show ?thesis by blast
qed

text \<open>
  Claim C5. The query builds the mapping the claim describes, and a failure of the
  inspection is logged and nothing more, as shown above. But the inspector does not
  render that mapping: the script reads \<^verbatim>\<open>Object.keys\<close> and \<^verbatim>\<open>Object.entries\<close> of the
  object that \<^verbatim>\<open>runPython\<close> returns, without converting it. For the run of the two
  lines \<^verbatim>\<open>x = 5\<close> and \<^verbatim>\<open>print(x)\<close> the output sink receives \<open>5\<close>, the status is
  \<open>Done\<close>, and the mapping of the query has \<open>x\<close> with \<open>5\<close>; the object returned has no
  enumerable property of its own, and the inspector shows \<open>(no variables)\<close>, with
  nothing logged.
\<close>

theorem run_shows_no_variables:
  "pyReady sample_page \<and> rejected sample_import = None \<and> rejected sample_run = None \<and>
   getValue (editor sample_page) = ''x = 5\<newline>print(x)'' \<and>
   textContent (outputEl (runBtn_click sample_X sample_import sample_run sample_page)) = ''5\<newline>'' \<and>
   editorStatus (runBtn_click sample_X sample_import sample_run sample_page) = ''Done'' \<and>
   snd (variables_query sample_X (globals_after sample_run)) =
     Inr [(''builtins'', ''<module builtins>''), (''js'', ''<module js>''),
          (''sys'', ''<module sys>''), (''traceback'', ''<module traceback>''),
          (''x'', ''5'')] \<and>
   own_entries sample_X
     [(''builtins'', ''<module builtins>''), (''js'', ''<module js>''),
      (''sys'', ''<module sys>''), (''traceback'', ''<module traceback>''),
      (''x'', ''5'')] = Inr [] \<and>
   variablesEl (runBtn_click sample_X sample_import sample_run sample_page) = ''(no variables)'' \<and>
   console (runBtn_click sample_X sample_import sample_run sample_page) = []"
proof -
  have r1: "rejected sample_import = None" and r2: "rejected sample_run = None"
    by (simp_all add: sample_import_def sample_run_def)
  have ed: "getValue (editor sample_page) = ''x = 5\<newline>print(x)''"
    by (simp add: sample_page_def getValue_def)
  have en: "own_entries sample_X
     [(''builtins'', ''<module builtins>''), (''js'', ''<module js>''),
      (''sys'', ''<module sys>''), (''traceback'', ''<module traceback>''),
      (''x'', ''5'')] = Inr []"
    by (simp add: sample_X_def)
  have click: "runBtn_click sample_X sample_import sample_run sample_page =
     run_finally (updateVariables sample_X
       ((resumed sample_X sample_import sample_run sample_page)\<lparr>editorStatus := ''Done''\<rparr>))"
    using sample_page_ready r1 r2 by (rule runBtn_click_resolved)
  have u: "updateVariables sample_X
       ((resumed sample_X sample_import sample_run sample_page)\<lparr>editorStatus := ''Done''\<rparr>) =
     (resumed sample_X sample_import sample_run sample_page)
       \<lparr>editorStatus := ''Done'',
        py_globals := fst (variables_query sample_X (globals_after sample_run)),
        py_calls := py_calls (resumed sample_X sample_import sample_run sample_page)
                    @ [Variables_source],
        variablesEl := ''(no variables)''\<rparr>"
    using sample_page_ready
    by (simp add: updateVariables_def Let_def resumed_facts sample_queries en render_variables_def)
  have o: "textContent (outputEl (runBtn_click sample_X sample_import sample_run sample_page)) = ''5\<newline>''"
    unfolding click u by (simp add: run_finally_def resumed_sample)
  have st: "editorStatus (runBtn_click sample_X sample_import sample_run sample_page) = ''Done''"
    unfolding click u by (simp add: run_finally_def)
  have v: "variablesEl (runBtn_click sample_X sample_import sample_run sample_page) = ''(no variables)''"
    unfolding click u by (simp add: run_finally_def)
  have c: "console (runBtn_click sample_X sample_import sample_run sample_page) = []"
    unfolding click u by (simp add: run_finally_def resumed_sample)
  have q: "snd (variables_query sample_X (globals_after sample_run)) =
     Inr [(''builtins'', ''<module builtins>''), (''js'', ''<module js>''),
          (''sys'', ''<module sys>''), (''traceback'', ''<module traceback>''),
          (''x'', ''5'')]"
    by (simp add: sample_queries)
  from sample_page_ready r1 r2 ed o st q en v c show ?thesis by blast
qed

section \<open>Toolbox persistence\<close>

lemma set_prop_same: "k \<noteq> ''__proto__'' \<Longrightarrow> set_prop obj k v k = Some v"
  by (simp add: set_prop_def)

lemma set_prop_other: "k' \<noteq> k \<Longrightarrow> set_prop obj k v k' = obj k'"
  by (simp add: set_prop_def)

lemma set_prop_ordinary: "k \<noteq> ''__proto__'' \<Longrightarrow> set_prop obj k v = obj(k \<mapsto> v)"
  by (simp add: set_prop_def)

lemma user_toggle_facts:
  assumes "i < length (sections tb)"
  shows "sections (user_toggle i tb) = (sections tb)[i := flip (sections tb ! i)]"
    and "tb_state (user_toggle i tb) =
           set_prop (tb_state tb) (property_key (data_key (sections tb ! i)))
             (JBool (\<not> is_open (sections tb ! i)))"
    and "storage_item (user_toggle i tb) = Some (Object (tb_state (user_toggle i tb)))"
  using assms by (simp_all add: user_toggle_def on_toggle_def Let_def flip_def)

lemma user_toggle_beyond: "\<not> i < length (sections tb) \<Longrightarrow> user_toggle i tb = tb"
  by (simp add: user_toggle_def)

lemma user_toggle_keys:
  "map data_key (sections (user_toggle i tb)) = map data_key (sections tb)"
proof (cases "i < length (sections tb)")
  case True
  then show ?thesis
    by (simp add: user_toggle_facts map_update flip_def list_update_same_conv)
next
  case False
  then show ?thesis by (simp add: user_toggle_beyond)
qed

lemma user_toggle_stored: "stored_is_state tb \<Longrightarrow> stored_is_state (user_toggle i tb)"
  by (cases "i < length (sections tb)")
     (simp_all add: stored_is_state_def user_toggle_facts user_toggle_beyond)

lemma user_toggle_elsewhere:
  assumes "i < length (sections tb)"
    and "j < length (sections tb) \<longrightarrow> property_key (data_key (sections tb ! j)) \<noteq> k"
    and "property_key (data_key (sections tb ! i)) = k"
  shows "tb_state (user_toggle j tb) k = tb_state tb k"
    and "sections (user_toggle j tb) ! i = sections tb ! i"
proof -
  show "tb_state (user_toggle j tb) k = tb_state tb k"
  proof (cases "j < length (sections tb)")
    case True
    with assms(2) show ?thesis by (simp add: user_toggle_facts set_prop_other)
  next
    case False
    then show ?thesis by (simp add: user_toggle_beyond)
  qed
  show "sections (user_toggle j tb) ! i = sections tb ! i"
  proof (cases "j < length (sections tb)")
    case True
    with assms have "j \<noteq> i" by auto
    with True show ?thesis by (simp add: user_toggle_facts)
  next
    case False
    then show ?thesis by (simp add: user_toggle_beyond)
  qed
qed

lemma nth_data_key:
  "map data_key xs = map data_key ys \<Longrightarrow> j < length ys \<Longrightarrow> data_key (xs ! j) = data_key (ys ! j)"
  by (metis length_map nth_map)

lemma fold_user_toggle_elsewhere:
  assumes "i < length (sections tb)"
    and "property_key (data_key (sections tb ! i)) = k"
    and "\<forall>j\<in>set js. j < length (sections tb) \<longrightarrow> property_key (data_key (sections tb ! j)) \<noteq> k"
    and "stored_is_state tb"
  shows "tb_state (fold user_toggle js tb) k = tb_state tb k \<and>
         sections (fold user_toggle js tb) ! i = sections tb ! i \<and>
         stored_is_state (fold user_toggle js tb)"
  using assms
proof (induction js arbitrary: tb)
  case Nil
  then show ?case by simp
next
  case (Cons j js)
  let ?tb = "user_toggle j tb"
  have keys: "map data_key (sections ?tb) = map data_key (sections tb)"
    by (rule user_toggle_keys)
  then have len: "length (sections ?tb) = length (sections tb)"
    by (metis length_map)
  have j: "j < length (sections tb) \<longrightarrow> property_key (data_key (sections tb ! j)) \<noteq> k"
    using Cons.prems(3) by simp
  have st: "tb_state ?tb k = tb_state tb k" and sec: "sections ?tb ! i = sections tb ! i"
    using user_toggle_elsewhere [OF Cons.prems(1) j Cons.prems(2)] by simp_all
  have 1: "i < length (sections ?tb)" using Cons.prems(1) len by simp
  have 2: "property_key (data_key (sections ?tb ! i)) = k"
    using Cons.prems(2) sec by simp
  have 3: "\<forall>j'\<in>set js. j' < length (sections ?tb) \<longrightarrow>
             property_key (data_key (sections ?tb ! j')) \<noteq> k"
  proof (intro ballI impI)
    fix j' assume "j' \<in> set js" and l: "j' < length (sections ?tb)"
    then have "property_key (data_key (sections tb ! j')) \<noteq> k"
      using Cons.prems(3) len by simp
    moreover have "data_key (sections ?tb ! j') = data_key (sections tb ! j')"
      using nth_data_key [OF keys] l len by simp
    ultimately show "property_key (data_key (sections ?tb ! j')) \<noteq> k" by simp
  qed
  have 4: "stored_is_state ?tb" using Cons.prems(4) by (rule user_toggle_stored)
  from Cons.IH [OF 1 2 3 4] st sec show ?case by simp
qed

lemma reload_restores:
  assumes "item = Some (Object st)" and "st k = Some (JBool b)" and "k \<noteq> []"
    and "j < length secs" and "data_key (secs ! j) = Some k"
  shows "is_open (sections (persistToolbox item secs) ! j) = b"
  using assms by (simp add: persistToolbox_def initial_state_def restore_def Let_def)


text \<open>
  Claim C8, as stated, fails. A section whose \<open>data-key\<close> attribute is the empty string
  is opened by a toggle, and the listener stores the value under the empty key; the
  next page load skips the section, because the empty key counts as false, and leaves
  it closed. A section with the key \<open>__proto__\<close> is opened by a toggle, the state
  object gets no such property, and the next page load leaves it closed.
\<close>

theorem toggle_then_reload_counterexample:
  "is_open (sections (user_toggle 0
      (persistToolbox None [\<lparr>data_key = Some [], is_open = False\<rparr>] :: unit toolbox)) ! 0) \<and>
   tb_state (user_toggle 0
      (persistToolbox None [\<lparr>data_key = Some [], is_open = False\<rparr>] :: unit toolbox)) [] =
     Some (JBool True) \<and>
   \<not> is_open (sections (persistToolbox
      (storage_item (user_toggle 0
         (persistToolbox None [\<lparr>data_key = Some [], is_open = False\<rparr>] :: unit toolbox)))
      [\<lparr>data_key = Some [], is_open = False\<rparr>]) ! 0) \<and>
   is_open (sections (user_toggle 0
      (persistToolbox None [\<lparr>data_key = Some ''__proto__'', is_open = False\<rparr>] :: unit toolbox)) ! 0) \<and>
   tb_state (user_toggle 0
      (persistToolbox None [\<lparr>data_key = Some ''__proto__'', is_open = False\<rparr>] :: unit toolbox))
      ''__proto__'' = None \<and>
   \<not> is_open (sections (persistToolbox
      (storage_item (user_toggle 0
         (persistToolbox None [\<lparr>data_key = Some ''__proto__'', is_open = False\<rparr>] :: unit toolbox)))
      [\<lparr>data_key = Some ''__proto__'', is_open = False\<rparr>]) ! 0)"
  by (simp add: persistToolbox_def initial_state_def restore_def user_toggle_def on_toggle_def
        flip_def set_prop_def property_key_def Let_def)

text \<open>
  Claim C8, amended. For a section with a data key that is not empty and is not the
  reserved property name \<open>__proto__\<close>, a toggle flips the section, sets the key to
  the new value in the state object and stores the text of the whole object. Later
  toggles of sections with other keys, which store the whole object again, leave the
  key and the section as they are. A page load that reads the stored object then
  gives every section with that key the value the section had after its toggle.
\<close>

theorem toggle_then_reload:
  "i < length (sections tb) \<Longrightarrow> data_key (sections tb ! i) = Some k \<Longrightarrow>
   k \<noteq> [] \<Longrightarrow> k \<noteq> ''__proto__'' \<Longrightarrow>
   \<forall>j\<in>set js. j < length (sections tb) \<longrightarrow> property_key (data_key (sections tb ! j)) \<noteq> k \<Longrightarrow>
   n < length secs \<Longrightarrow> data_key (secs ! n) = Some k \<Longrightarrow>
   is_open (sections (user_toggle i tb) ! i) = (\<not> is_open (sections tb ! i)) \<and>
   tb_state (user_toggle i tb) = (tb_state tb)(k \<mapsto> JBool (is_open (sections (user_toggle i tb) ! i))) \<and>
   storage_item (user_toggle i tb) = Some (Object (tb_state (user_toggle i tb))) \<and>
   storage_item (fold user_toggle js (user_toggle i tb)) =
     Some (Object (tb_state (fold user_toggle js (user_toggle i tb)))) \<and>
   is_open (sections (fold user_toggle js (user_toggle i tb)) ! i) =
     is_open (sections (user_toggle i tb) ! i) \<and>
   is_open (sections (persistToolbox (storage_item (fold user_toggle js (user_toggle i tb))) secs) ! n) =
     is_open (sections (user_toggle i tb) ! i)"
proof -
  assume i: "i < length (sections tb)" and key: "data_key (sections tb ! i) = Some k"
    and k: "k \<noteq> []" and proto: "k \<noteq> ''__proto__''"
    and others: "\<forall>j\<in>set js. j < length (sections tb) \<longrightarrow>
                   property_key (data_key (sections tb ! j)) \<noteq> k"
    and n: "n < length secs" and nkey: "data_key (secs ! n) = Some k"
  let ?t1 = "user_toggle i tb"
  let ?t2 = "fold user_toggle js ?t1"
  let ?b = "is_open (sections ?t1 ! i)"
  have pk: "property_key (data_key (sections tb ! i)) = k"
    using key by (simp add: property_key_def)
  have b: "?b = (\<not> is_open (sections tb ! i))"
    using i by (simp add: user_toggle_facts flip_def)
  have st1: "tb_state ?t1 = (tb_state tb)(k \<mapsto> JBool ?b)"
    using i proto by (simp add: user_toggle_facts pk set_prop_ordinary flip_def)
  have sto1: "storage_item ?t1 = Some (Object (tb_state ?t1))"
    using i by (rule user_toggle_facts)
  have keys: "map data_key (sections ?t1) = map data_key (sections tb)"
    by (rule user_toggle_keys)
  then have len: "length (sections ?t1) = length (sections tb)"
    by (metis length_map)
  have 1: "i < length (sections ?t1)" using i len by simp
  have 2: "property_key (data_key (sections ?t1 ! i)) = k"
    using nth_data_key [OF keys i] pk by simp
  have 3: "\<forall>j\<in>set js. j < length (sections ?t1) \<longrightarrow>
             property_key (data_key (sections ?t1 ! j)) \<noteq> k"
  proof (intro ballI impI)
    fix j assume "j \<in> set js" and l: "j < length (sections ?t1)"
    then have "property_key (data_key (sections tb ! j)) \<noteq> k"
      using others len by simp
    moreover have "data_key (sections ?t1 ! j) = data_key (sections tb ! j)"
      using nth_data_key [OF keys] l len by simp
    ultimately show "property_key (data_key (sections ?t1 ! j)) \<noteq> k" by simp
  qed
  have 4: "stored_is_state ?t1" using sto1 by (simp add: stored_is_state_def)
  from fold_user_toggle_elsewhere [OF 1 2 3 4]
  have st2: "tb_state ?t2 k = tb_state ?t1 k" and sec2: "sections ?t2 ! i = sections ?t1 ! i"
    and sto2: "storage_item ?t2 = Some (Object (tb_state ?t2))"
    by (simp_all add: stored_is_state_def)
  from st2 st1 have "tb_state ?t2 k = Some (JBool ?b)" by simp
  from reload_restores [OF sto2 this k n nkey]
  have r: "is_open (sections (persistToolbox (storage_item ?t2) secs) ! n) = ?b" .
  from b st1 sto1 sto2 sec2 r show ?thesis by simp
qed

lemma sample_toolbox_eq:
  "sample_toolbox =
     \<lparr>sections = [\<lparr>data_key = Some ''loops'', is_open = False\<rparr>,
                  \<lparr>data_key = Some ''io'', is_open = True\<rparr>],
      tb_state = Map.empty, storage_item = None\<rparr>"
  by (simp add: sample_toolbox_def sample_markup_def persistToolbox_def initial_state_def
        restore_def Let_def)

theorem toggle_then_reload_witness:
  "0 < length (sections sample_toolbox) \<and>
   data_key (sections sample_toolbox ! 0) = Some ''loops'' \<and>
   ''loops'' \<noteq> [] \<and> ''loops'' \<noteq> ''__proto__'' \<and>
   property_key (data_key (sections sample_toolbox ! 1)) \<noteq> ''loops'' \<and>
   0 < length (m_sections sample_markup) \<and>
   data_key (m_sections sample_markup ! 0) = Some ''loops'' \<and>
   \<not> is_open (m_sections sample_markup ! 0) \<and>
   is_open (sections (user_toggle 0 sample_toolbox) ! 0) \<and>
   is_open (sections (persistToolbox
                        (storage_item (fold user_toggle [1, 1] (user_toggle 0 sample_toolbox)))
                        (m_sections sample_markup)) ! 0)"
proof -
  have h1: "0 < length (sections sample_toolbox)"
    and h2: "data_key (sections sample_toolbox ! 0) = Some ''loops''"
    and h5: "property_key (data_key (sections sample_toolbox ! 1)) \<noteq> ''loops''"
    and o: "\<not> is_open (sections sample_toolbox ! 0)"
    by (simp_all add: sample_toolbox_eq property_key_def)
  have h3: "''loops'' \<noteq> []" and h4: "''loops'' \<noteq> ''__proto__''" by simp_all
  from h5 have h5': "\<forall>j\<in>set [1, 1]. j < length (sections sample_toolbox) \<longrightarrow>
      property_key (data_key (sections sample_toolbox ! j)) \<noteq> ''loops''"
    by simp
  have h6: "0 < length (m_sections sample_markup)"
    and h7: "data_key (m_sections sample_markup ! 0) = Some ''loops''"
    and h8: "\<not> is_open (m_sections sample_markup ! 0)"
    by (simp_all add: sample_markup_def)
  from toggle_then_reload [OF h1 h2 h3 h4 h5' h6 h7] o
  have "is_open (sections (user_toggle 0 sample_toolbox) ! 0)"
    and "is_open (sections (persistToolbox
                        (storage_item (fold user_toggle [1, 1] (user_toggle 0 sample_toolbox)))
                        (m_sections sample_markup)) ! 0)"
    by blast+
  with h1 h2 h3 h4 h5 h6 h7 h8 show ?thesis by blast
qed

section \<open>Snippet insertion\<close>

lemma trim_Nil_iff: "trim x = [] \<longleftrightarrow> (\<forall>c\<in>set x. is_space c)"
proof
  assume "\<forall>c\<in>set x. is_space c"
  then show "trim x = []" by (rule trim_all_space)
next
  assume t: "trim x = []"
  show "\<forall>c\<in>set x. is_space c"
  proof (rule ccontr)
    assume "\<not> (\<forall>c\<in>set x. is_space c)"
    then have ne: "dropWhile is_space x \<noteq> []" by (simp add: dropWhile_eq_Nil_conv)
    then have "\<not> is_space (hd (dropWhile is_space x))" by (rule hd_dropWhile)
    moreover have "hd (dropWhile is_space x) \<in> set (rev (dropWhile is_space x))"
      using ne by simp
    ultimately have "dropWhile is_space (rev (dropWhile is_space x)) \<noteq> []"
      by (metis dropWhile_eq_Nil_conv)
    then show False using t by (simp add: trim_def)
  qed
qed

lemma needsLeadingNL_eq:
  "(if trim x \<noteq> [] then [LF] else []) = (if list_ex (\<lambda>c. \<not> is_space c) x then [LF] else [])"
  by (simp add: trim_Nil_iff list_ex_iff)

lemma split_LF_not_Nil [simp]: "split_LF t \<noteq> []"
  by (induction t) (auto split: list.splits)

lemma cons_first_eq: "cons_first c xs = (case xs of [] \<Rightarrow> [[c]] | l # ls \<Rightarrow> (c # l) # ls)"
  by (cases xs) simp_all

lemma join_lines_Cons: "ls \<noteq> [] \<Longrightarrow> join_lines (l # ls) = l @ LF # join_lines ls"
  by (cases ls) simp_all

lemma join_split_LF: "join_lines (split_LF t) = t"
proof (induction t)
  case Nil
  then show ?case by simp
next
  case (Cons c t)
  show ?case
  proof (cases "c = LF")
    case True
    then show ?thesis using Cons by (simp add: join_lines_Cons)
  next
    case False
    obtain l ls where s: "split_LF t = l # ls" by (cases "split_LF t") auto
    with Cons have "join_lines (l # ls) = t" by simp
    then have "join_lines ((c # l) # ls) = c # t" by (cases ls) auto
    with False s show ?thesis by simp
  qed
qed

lemma length_split_LF_LF: "length (split_LF (LF # t)) = Suc (length (split_LF t))"
  by simp

lemma join_lines_glue:
  "join_lines (xs @ (a @ b) # ys) = join_lines (xs @ [a]) @ join_lines (b # ys)"
proof (induction xs)
  case Nil
  then show ?case by (cases ys) simp_all
next
  case (Cons x xs)
  have "join_lines ((x # xs) @ (a @ b) # ys) = x @ LF # join_lines (xs @ (a @ b) # ys)"
    by (simp add: join_lines_Cons)
  also have "\<dots> = x @ LF # join_lines (xs @ [a]) @ join_lines (b # ys)"
    by (simp add: Cons)
  also have "\<dots> = join_lines ((x # xs) @ [a]) @ join_lines (b # ys)"
    by (simp add: join_lines_Cons)
  finally show ?case .
qed

lemma join_lines_splice:
  assumes "parts \<noteq> []"
  shows "join_lines (A @ splice_lines l parts r @ B) =
         join_lines (A @ [l]) @ join_lines parts @ join_lines (r # B)"
proof (cases parts)
  case Nil
  with assms show ?thesis by simp
next
  case (Cons p ps)
  show ?thesis
  proof (cases ps)
    case Nil
    have "join_lines (A @ (l @ (p @ r)) # B) = join_lines (A @ [l]) @ join_lines ((p @ r) # B)"
      by (rule join_lines_glue)
    moreover have "join_lines ([] @ (p @ r) # B) = join_lines ([] @ [p]) @ join_lines (r # B)"
      by (rule join_lines_glue)
    ultimately show ?thesis using Cons Nil by (simp add: splice_lines_def)
  next
    case (Cons q qs)
    let ?M = "butlast (p # q # qs)"
    have "join_lines (A @ (l @ p) # (butlast (q # qs) @ (last (q # qs) @ r) # B)) =
          join_lines (A @ [l]) @ join_lines (p # butlast (q # qs) @ (last (q # qs) @ r) # B)"
      by (rule join_lines_glue)
    moreover have "join_lines (?M @ (last (q # qs) @ r) # B) =
          join_lines (?M @ [last (q # qs)]) @ join_lines (r # B)"
      by (rule join_lines_glue)
    moreover have "?M @ [last (q # qs)] = p # q # qs"
      using append_butlast_last_id [of "p # q # qs"] by simp
    ultimately show ?thesis using \<open>parts = p # ps\<close> Cons by (simp add: splice_lines_def)
  qed
qed

lemma length_splice_lines: "parts \<noteq> [] \<Longrightarrow> length (splice_lines l parts r) = length parts"
  by (auto simp: splice_lines_def split: list.splits)

lemma upto_map_int: "[int a..int b] = map int [a..<Suc b]"
proof (induction b)
  case 0
  then show ?case by (cases "a = 0") simp_all
next
  case (Suc b)
  show ?case
  proof (cases "a \<le> Suc b")
    case True
    then have "[int a..int (Suc b)] = [int a..int (Suc b) - 1] @ [int (Suc b)]"
      by (intro upto_rec2) simp
    also have "int (Suc b) - 1 = int b" by simp
    finally show ?thesis using True Suc by simp
  next
    case False
    then show ?thesis by simp
  qed
qed

lemma line_at_nth: "n < length ls \<Longrightarrow> line_at ls n = ls ! n"
  by (simp add: line_at_def)

lemma leading_newline_cases: "leading_newline ed = [] \<or> leading_newline ed = [LF]"
  by (simp add: leading_newline_def)

lemma length_split_LF_leading:
  "length (split_LF (leading_newline ed @ t)) = length (leading_newline ed) + length (split_LF t)"
  using leading_newline_cases [of ed] by auto

lemma getValue_cursor:
  assumes "wf_editor ed"
  shows "getValue ed = text_before_cursor ed @ text_after_cursor ed"
proof -
  let ?ls = "doc_lines ed" and ?ln = "cur_line ed" and ?ch = "cur_ch ed"
  from assms have ln: "?ln < length ?ls" by (simp add: wf_editor_def)
  then have "?ls = take ?ln ?ls @ ?ls ! ?ln # drop (Suc ?ln) ?ls"
    by (rule id_take_nth_drop)
  then have "?ls = take ?ln ?ls @ (take ?ch (line_at ?ls ?ln) @ drop ?ch (line_at ?ls ?ln))
                     # drop (Suc ?ln) ?ls"
    using ln by (simp add: line_at_nth)
  then have "join_lines ?ls =
      join_lines (take ?ln ?ls @ (take ?ch (line_at ?ls ?ln) @ drop ?ch (line_at ?ls ?ln))
                     # drop (Suc ?ln) ?ls)"
    by simp
  also have "\<dots> = join_lines (take ?ln ?ls @ [take ?ch (line_at ?ls ?ln)])
                   @ join_lines (drop ?ch (line_at ?ls ?ln) # drop (Suc ?ln) ?ls)"
    by (rule join_lines_glue)
  finally show ?thesis
    by (simp add: getValue_def text_before_cursor_def text_after_cursor_def)
qed

lemma length_split_LF_Cons:
  "length (split_LF (c # t)) = (if c = LF then Suc (length (split_LF t)) else length (split_LF t))"
  by (cases "split_LF t") auto

lemma length_split_LF_replace2:
  "length (split_LF (replace2 CR LF [LF] t)) = length (split_LF t)"
proof (induction CR LF "[LF]" t rule: replace2.induct)
  case (1 c d cs)
  show ?case
  proof (cases "c = CR \<and> d = LF")
    case True
    then have "replace2 CR LF [LF] (c # d # cs) = LF # replace2 CR LF [LF] cs" by simp
    moreover have "length (split_LF (replace2 CR LF [LF] cs)) = length (split_LF cs)"
      using 1(1) True by simp
    ultimately show ?thesis using True by (simp only: length_split_LF_Cons) simp
  next
    case False
    then have r: "replace2 CR LF [LF] (c # d # cs) = c # replace2 CR LF [LF] (d # cs)"
      by auto
    have "length (split_LF (replace2 CR LF [LF] (d # cs))) = length (split_LF (d # cs))"
      using 1(2) False by simp
    then show ?thesis unfolding r by (simp only: length_split_LF_Cons)
  qed
qed simp_all

lemma length_split_LF_replace_crlf: "length (split_LF (replace_crlf t)) = length (split_LF t)"
  by (simp only: replace_crlf_def length_split_LF_replace2)

lemma splitLines_paired: "\<not> lone_CR t \<Longrightarrow> splitLines t = split_LF (replace_crlf t)"
proof (induction t rule: splitLines.induct)
  case 1
  then show ?case by (simp add: replace_crlf_def)
next
  case (2 c)
  then show ?case by (simp add: replace_crlf_def)
next
  case (3 c d cs)
  show ?case
  proof (cases "c = CR")
    case True
    with "3.prems" have d: "d = LF" and n: "\<not> lone_CR cs" by simp_all
    from "3.IH"(1) True d n have "splitLines cs = split_LF (replace_crlf cs)" by simp
    then show ?thesis using True d by (simp add: replace_crlf_def)
  next
    case False
    with "3.prems" have n: "\<not> lone_CR (d # cs)" by simp
    from "3.IH"(2) False n have i: "c = LF \<Longrightarrow> splitLines (d # cs) = split_LF (replace_crlf (d # cs))"
      by simp
    from "3.IH"(3) False n have j: "c \<noteq> LF \<Longrightarrow> splitLines (d # cs) = split_LF (replace_crlf (d # cs))"
      by simp
    have r: "replace_crlf (c # d # cs) = c # replace_crlf (d # cs)"
      using False by (simp add: replace_crlf_def)
    show ?thesis using False i j by (simp add: r cons_first_eq)
  qed
qed

lemma leading_newline_lone_CR: "lone_CR (leading_newline ed @ t) = lone_CR t"
  using leading_newline_cases [of ed] by (cases t) auto

lemma leading_newline_replace_crlf:
  "replace_crlf (leading_newline ed @ t) = leading_newline ed @ replace_crlf t"
  using leading_newline_cases [of ed] by (cases t) (auto simp: replace_crlf_def)

lemma with_snippet_facts:
  assumes "\<not> lone_CR snippet"
  shows "doc_lines (with_snippet snippet ed) =
           take (cur_line ed) (doc_lines ed)
           @ splice_lines (take (cur_ch ed) (line_at (doc_lines ed) (cur_line ed)))
               (split_LF (leading_newline ed @ replace_crlf snippet))
               (drop (cur_ch ed) (line_at (doc_lines ed) (cur_line ed)))
           @ drop (Suc (cur_line ed)) (doc_lines ed)"
    and "cur_line (with_snippet snippet ed) =
           cur_line ed + length (leading_newline ed) + (length (split_LF snippet) - 1)"
    and "cur_ch (with_snippet snippet ed) =
           length (last (split_LF (leading_newline ed @ replace_crlf snippet)))
           + (if length (split_LF (leading_newline ed @ replace_crlf snippet)) = 1 then cur_ch ed else 0)"
proof -
  have s: "splitLines (leading_newline ed @ snippet) = split_LF (leading_newline ed @ replace_crlf snippet)"
    using assms by (simp add: splitLines_paired leading_newline_lone_CR leading_newline_replace_crlf)
  have p: "\<not> pos_less (cur_line ed, cur_ch ed) (cur_line ed, cur_ch ed)"
    by (simp add: pos_less_def)
  show "doc_lines (with_snippet snippet ed) =
           take (cur_line ed) (doc_lines ed)
           @ splice_lines (take (cur_ch ed) (line_at (doc_lines ed) (cur_line ed)))
               (split_LF (leading_newline ed @ replace_crlf snippet))
               (drop (cur_ch ed) (line_at (doc_lines ed) (cur_line ed)))
           @ drop (Suc (cur_line ed)) (doc_lines ed)"
    by (simp add: with_snippet_def replaceRange_def Let_def s)
  have "cur_line (with_snippet snippet ed) =
          cur_line ed + (length (split_LF (leading_newline ed @ replace_crlf snippet)) - 1)"
    by (simp add: with_snippet_def replaceRange_def Let_def s p)
  moreover obtain m where "length (split_LF snippet) = Suc m"
    by (cases "split_LF snippet") auto
  ultimately show "cur_line (with_snippet snippet ed) =
           cur_line ed + length (leading_newline ed) + (length (split_LF snippet) - 1)"
    by (simp add: length_split_LF_leading length_split_LF_replace_crlf)
  show "cur_ch (with_snippet snippet ed) =
           length (last (split_LF (leading_newline ed @ replace_crlf snippet)))
           + (if length (split_LF (leading_newline ed @ replace_crlf snippet)) = 1 then cur_ch ed else 0)"
    by (simp add: with_snippet_def replaceRange_def Let_def s p)
qed

lemma getValue_with_snippet:
  assumes "wf_editor ed" and "\<not> lone_CR snippet"
  shows "getValue (with_snippet snippet ed) =
         text_before_cursor ed @ leading_newline ed @ replace_crlf snippet @ text_after_cursor ed"
proof -
  have "getValue (with_snippet snippet ed) =
          join_lines (take (cur_line ed) (doc_lines ed)
                      @ [take (cur_ch ed) (line_at (doc_lines ed) (cur_line ed))])
          @ join_lines (split_LF (leading_newline ed @ replace_crlf snippet))
          @ join_lines (drop (cur_ch ed) (line_at (doc_lines ed) (cur_line ed))
                        # drop (Suc (cur_line ed)) (doc_lines ed))"
    unfolding getValue_def with_snippet_facts(1) [OF assms(2)]
    by (rule join_lines_splice) simp
  then show ?thesis
    by (simp add: join_split_LF text_before_cursor_def text_after_cursor_def)
qed

lemma insertSnippet_eq:
  assumes "wf_editor ed" and "\<not> lone_CR snippet"
  shows "insertSnippet smart snippet ed =
         Some (fold (indentLine smart)
                 (map int [cur_line ed + length (leading_newline ed)
                           ..< Suc (cur_line (with_snippet snippet ed))])
                 ((with_snippet snippet ed)\<lparr>focused := True\<rparr>))"
proof -
  from assms(1) have ln: "cur_line ed < length (doc_lines ed)" by (simp add: wf_editor_def)
  then have g: "getLine ed (cur_line ed) = Some (doc_lines ed ! cur_line ed)"
    by (simp add: getLine_def)
  have n: "(if trim (take (cur_ch ed) (doc_lines ed ! cur_line ed)) \<noteq> [] then [LF] else []) =
           leading_newline ed"
    using ln by (simp add: needsLeadingNL_eq leading_newline_def line_at_nth)
  have c: "cur_line (with_snippet snippet ed) =
           cur_line ed + length (leading_newline ed) + (length (split_LF snippet) - 1)"
    using assms(2) by (rule with_snippet_facts)
  obtain m where "length (split_LF snippet) = Suc m"
    by (cases "split_LF snippet") auto
  then have "int (cur_line (with_snippet snippet ed)) - (int (length (split_LF snippet)) - 1) =
        int (cur_line ed + length (leading_newline ed))"
    by (simp add: c)
  then have "[int (cur_line (with_snippet snippet ed)) - (int (length (split_LF snippet)) - 1)
              .. int (cur_line (with_snippet snippet ed))] =
        map int [cur_line ed + length (leading_newline ed)
                 ..< Suc (cur_line (with_snippet snippet ed))]"
    by (simp only: upto_map_int)
  then show ?thesis
    by (simp add: insertSnippet_def g n Let_def with_snippet_def [symmetric])
qed


lemma splice_lines_before:
  assumes "parts \<noteq> []" and "length l1 = ch"
  shows "butlast (splice_lines l1 parts l2)
         @ [take (length (last parts) + (if length parts = 1 then ch else 0))
              (last (splice_lines l1 parts l2))] =
         splice_lines l1 parts []"
proof (cases parts)
  case Nil
  with assms show ?thesis by simp
next
  case (Cons p ps)
  show ?thesis
  proof (cases ps)
    case Nil
    with Cons assms(2) show ?thesis by (simp add: splice_lines_def)
  next
    case (Cons q qs)
    have "butlast ((l1 @ p) # butlast (q # qs) @ [last (q # qs) @ l2]) =
          (l1 @ p) # butlast (q # qs)"
      by (simp add: butlast_append)
    moreover have "last ((l1 @ p) # butlast (q # qs) @ [last (q # qs) @ l2]) = last (q # qs) @ l2"
      by simp
    ultimately show ?thesis
      using \<open>parts = p # ps\<close> Cons by (simp add: splice_lines_def)
  qed
qed

lemma take_butlast_append: "S \<noteq> [] \<Longrightarrow> take (length S - 1) (S @ B) = butlast S"
  by (simp add: butlast_conv_take)

lemma nth_last_append: "S \<noteq> [] \<Longrightarrow> (S @ B) ! (length S - 1) = last S"
  by (simp add: nth_append last_conv_nth)

lemma text_before_cursor_with_snippet:
  assumes "wf_editor ed" and "\<not> lone_CR snippet"
  shows "text_before_cursor (with_snippet snippet ed) =
         text_before_cursor ed @ leading_newline ed @ replace_crlf snippet"
proof -
  let ?ls = "doc_lines ed" and ?ln = "cur_line ed" and ?ch = "cur_ch ed"
  let ?l1 = "take ?ch (line_at ?ls ?ln)" and ?l2 = "drop ?ch (line_at ?ls ?ln)"
  let ?parts = "split_LF (leading_newline ed @ replace_crlf snippet)"
  let ?S = "splice_lines ?l1 ?parts ?l2"
  let ?A = "take ?ln ?ls" and ?B = "drop (Suc ?ln) ?ls"
  let ?k = "length ?parts - 1"
  let ?ed1 = "with_snippet snippet ed"
  from assms(1) have ln: "?ln < length ?ls" and ch: "?ch \<le> length (?ls ! ?ln)"
    by (simp_all add: wf_editor_def)
  have lenA: "length ?A = ?ln" using ln by simp
  have lenl1: "length ?l1 = ?ch" using ln ch by (simp add: line_at_nth)
  have ne: "?parts \<noteq> []" by simp
  have lenS: "length ?S = length ?parts" using ne by (rule length_splice_lines)
  then have Sne: "?S \<noteq> []" using ne by auto
  have lines: "doc_lines ?ed1 = ?A @ ?S @ ?B" using assms(2) by (rule with_snippet_facts)
  have cl: "cur_line ?ed1 = ?ln + ?k"
  proof -
    obtain m where "length (split_LF snippet) = Suc m"
      by (cases "split_LF snippet") auto
    then show ?thesis
      by (simp add: with_snippet_facts(2) [OF assms(2)] length_split_LF_leading
            length_split_LF_replace_crlf)
  qed
  have cc: "cur_ch ?ed1 = length (last ?parts) + (if length ?parts = 1 then ?ch else 0)"
    using assms(2) by (rule with_snippet_facts)
  have "take (?ln + ?k) (?A @ ?S @ ?B) = ?A @ take ?k (?S @ ?B)"
    using lenA by (simp add: take_append)
  also have "take ?k (?S @ ?B) = take (length ?S - 1) (?S @ ?B)"
    by (simp only: lenS)
  also have "\<dots> = butlast ?S"
    using Sne by (rule take_butlast_append)
  finally have tk: "take (cur_line ?ed1) (doc_lines ?ed1) = ?A @ butlast ?S"
    by (simp only: cl lines)
  have "?ln + ?k < length (?A @ ?S @ ?B)" using lenA Sne lenS by (cases ?S) auto
  then have "line_at (?A @ ?S @ ?B) (?ln + ?k) = (?A @ ?S @ ?B) ! (?ln + ?k)"
    by (rule line_at_nth)
  also have "\<dots> = (?S @ ?B) ! ?k"
    using lenA by (simp add: nth_append)
  also have "\<dots> = (?S @ ?B) ! (length ?S - 1)"
    by (simp only: lenS)
  also have "\<dots> = last ?S" using Sne by (rule nth_last_append)
  finally have la: "line_at (doc_lines ?ed1) (cur_line ?ed1) = last ?S"
    by (simp only: cl lines)
  have "text_before_cursor ?ed1 =
        join_lines (?A @ (butlast ?S
           @ [take (length (last ?parts) + (if length ?parts = 1 then ?ch else 0)) (last ?S)]))"
    by (simp add: text_before_cursor_def tk la cc)
  also have "\<dots> = join_lines (?A @ splice_lines ?l1 ?parts [] @ [])"
    by (simp only: splice_lines_before [OF ne lenl1] append_Nil2)
  also have "\<dots> = join_lines (?A @ [?l1]) @ join_lines ?parts @ join_lines ([] # [])"
    using ne by (rule join_lines_splice)
  finally show ?thesis
    by (simp add: join_split_LF text_before_cursor_def)
qed

text \<open>
  What \<^verbatim>\<open>insertSnippet\<close> does in a well-formed editor with a snippet in which a line
  feed follows every carriage return. The editor takes the snippet at the cursor, with
  one line feed in front exactly when a character other than white space stands before
  the cursor on its line, and with each pair of carriage return and line feed as one
  line break; the cursor then stands right behind the inserted text. The handler gives
  the editor the focus and then applies the editor's indentation rule to each line in
  turn, from the line on which the snippet starts (the cursor's line, or the next one
  when the line feed was put in front) through the line on which the cursor has ended
  up.
\<close>

theorem insertSnippet_inserts_and_indents:
  "wf_editor ed \<Longrightarrow> \<not> lone_CR snippet \<Longrightarrow>
   insertSnippet smart snippet ed =
     Some (fold (indentLine smart)
             (map int [cur_line ed + length (leading_newline ed)
                       ..< Suc (cur_line (with_snippet snippet ed))])
             ((with_snippet snippet ed)\<lparr>focused := True\<rparr>)) \<and>
   leading_newline ed =
     (if list_ex (\<lambda>c. \<not> is_space c) (take (cur_ch ed) (doc_lines ed ! cur_line ed))
      then [LF] else []) \<and>
   getValue ed = text_before_cursor ed @ text_after_cursor ed \<and>
   getValue (with_snippet snippet ed) =
     text_before_cursor ed @ leading_newline ed @ replace_crlf snippet @ text_after_cursor ed \<and>
   text_before_cursor (with_snippet snippet ed) =
     text_before_cursor ed @ leading_newline ed @ replace_crlf snippet \<and>
   cur_line (with_snippet snippet ed) =
     cur_line ed + length (leading_newline ed) + (length (split_LF snippet) - 1)"
proof -
  assume wf: "wf_editor ed" and cr: "\<not> lone_CR snippet"
  from wf have "cur_line ed < length (doc_lines ed)" by (simp add: wf_editor_def)
  then have "leading_newline ed =
     (if list_ex (\<lambda>c. \<not> is_space c) (take (cur_ch ed) (doc_lines ed ! cur_line ed))
      then [LF] else [])"
    by (simp add: leading_newline_def line_at_nth)
  with insertSnippet_eq [OF wf cr, of smart] getValue_cursor [OF wf]
    getValue_with_snippet [OF wf cr] text_before_cursor_with_snippet [OF wf cr]
    with_snippet_facts(2) [OF cr, of ed]
  show ?thesis by blast
qed

theorem insertSnippet_inserts_and_indents_witness:
  "wf_editor sample_editor \<and> \<not> lone_CR (''for i in x:'' @ [CR, LF] @ ''    pass'') \<and>
   leading_newline sample_editor = [LF] \<and>
   getValue sample_editor = ''x = 5\<newline>if x:\<newline>'' \<and>
   getValue (with_snippet (''for i in x:'' @ [CR, LF] @ ''    pass'') sample_editor) =
     ''x = 5\<newline>if x:\<newline>for i in x:\<newline>    pass\<newline>'' \<and>
   insertSnippet sample_smart (''for i in x:'' @ [CR, LF] @ ''    pass'') sample_editor =
     Some \<lparr>doc_lines = [''x = 5'', ''if x:'', TAB # ''for i in x:'', TAB # ''    pass'', []],
           cur_line = 3, cur_ch = 8, focused = True\<rparr>"
proof -
  let ?snip = "''for i in x:'' @ [CR, LF] @ ''    pass''"
  have wf: "wf_editor sample_editor" by (simp add: wf_editor_def sample_editor_def)
  have cr: "\<not> lone_CR ?snip" by simp
  have ln: "leading_newline sample_editor = [LF]" by code_simp
  have g0: "getValue sample_editor = ''x = 5\<newline>if x:\<newline>''" by code_simp
  have g1: "getValue (with_snippet ?snip sample_editor) =
     ''x = 5\<newline>if x:\<newline>for i in x:\<newline>    pass\<newline>''" by code_simp
  have ev: "fold (indentLine sample_smart)
             (map int [cur_line sample_editor + length (leading_newline sample_editor)
                       ..< Suc (cur_line (with_snippet ?snip sample_editor))])
             ((with_snippet ?snip sample_editor)\<lparr>focused := True\<rparr>) =
     \<lparr>doc_lines = [''x = 5'', ''if x:'', TAB # ''for i in x:'', TAB # ''    pass'', []],
           cur_line = 3, cur_ch = 8, focused = True\<rparr>"
    by code_simp
  from insertSnippet_inserts_and_indents [OF wf cr, of sample_smart]
  have "insertSnippet sample_smart ?snip sample_editor =
     Some (fold (indentLine sample_smart)
             (map int [cur_line sample_editor + length (leading_newline sample_editor)
                       ..< Suc (cur_line (with_snippet ?snip sample_editor))])
             ((with_snippet ?snip sample_editor)\<lparr>focused := True\<rparr>))"
    by blast
  then have "insertSnippet sample_smart ?snip sample_editor =
     Some \<lparr>doc_lines = [''x = 5'', ''if x:'', TAB # ''for i in x:'', TAB # ''    pass'', []],
           cur_line = 3, cur_ch = 8, focused = True\<rparr>"
    by (simp only: ev)
  with wf cr ln g0 g1 show ?thesis by blast
qed

text \<open>
  Claim C9. The handler means to indent every line of the inserted block: it goes back
  from the line of the cursor by the number of lines it takes the snippet to have,
  \<^verbatim>\<open>snippet.split("\n").length - 1\<close>. That count misses a line break the editor makes
  at a carriage return that no line feed follows. The snippet \<open>a\<close>, carriage return,
  \<open>b\<close> has no line feed, so the handler takes the inserted block to be one line; the
  editor breaks the line at the carriage return. Inserted at the start of the empty
  last line of the sample document, with an indentation rule that puts a tab in front
  of a line, the snippet fills the lines 2 and 3 and the cursor ends up in line 3; only
  line 3 gets the tab, and the first inserted line is left as it was.
\<close>

theorem insertSnippet_lone_carriage_return:
  "wf_editor (sample_editor\<lparr>cur_line := 2, cur_ch := 0\<rparr>) \<and>
   lone_CR [CHR ''a'', CR, CHR ''b''] \<and>
   split_LF [CHR ''a'', CR, CHR ''b''] = [[CHR ''a'', CR, CHR ''b'']] \<and>
   doc_lines (with_snippet [CHR ''a'', CR, CHR ''b''] (sample_editor\<lparr>cur_line := 2, cur_ch := 0\<rparr>)) =
     [''x = 5'', ''if x:'', ''a'', ''b''] \<and>
   cur_line (with_snippet [CHR ''a'', CR, CHR ''b''] (sample_editor\<lparr>cur_line := 2, cur_ch := 0\<rparr>)) = 3 \<and>
   insertSnippet sample_smart [CHR ''a'', CR, CHR ''b''] (sample_editor\<lparr>cur_line := 2, cur_ch := 0\<rparr>) =
     Some \<lparr>doc_lines = [''x = 5'', ''if x:'', ''a'', TAB # ''b''],
           cur_line = 3, cur_ch = 1, focused = True\<rparr>"
  by code_simp

end
